theory Spec2Isabelle
  imports Complex_Main
begin

section \<open>Wallet accounts of lbry-sdk: data model\<close>

text \<open>
  The development embeds \<^verbatim>\<open>lbry/wallet/account.py\<close>. Python \<^verbatim>\<open>str\<close> is
  \<^typ>\<open>string\<close>, Python \<^verbatim>\<open>bytes\<close> is a list of 8-bit characters, Python \<^verbatim>\<open>int\<close>
  is \<^typ>\<open>int\<close>. Exceptions are values of \<open>py_error\<close>; a function that can raise
  returns \<open>py_error + 'a\<close>.
\<close>

type_synonym bytes = "char list"

datatype py_error =
    ValueError
  | TypeError
  | IndexError
  | InvalidPasswordError
  | AssertionError
  | RuntimeError
  | AttributeError

text \<open>
  Extended keys are defined in \<^verbatim>\<open>lbry/wallet/bip32.py\<close>; the records keep the
  key material, the chain code, the child index \<^verbatim>\<open>n\<close> and the depth.
\<close>

record PublicKey =
  pubkey_bytes :: bytes
  pub_chain_code :: bytes
  pub_n :: int
  pub_depth :: int

record PrivateKey =
  secret :: bytes
  priv_chain_code :: bytes
  priv_n :: int
  priv_depth :: int

text \<open>KeyPath constants as the spec lists them.\<close>

definition KeyPath_RECEIVE :: int where "KeyPath_RECEIVE = 0"
definition KeyPath_CHANGE :: int where "KeyPath_CHANGE = 1"
definition KeyPath_CHANNEL :: int where "KeyPath_CHANNEL = 2"

text \<open>
  The functions that \<^verbatim>\<open>account.py\<close> imports from \<^verbatim>\<open>lbry.crypto.crypt\<close>,
  \<^verbatim>\<open>bip32\<close> and \<^verbatim>\<open>mnemonic\<close> are parameters of the model, collected in one
  record: AES encryption of a string under a password and an initialisation vector,
  AES decryption (which raises, or returns the plain text and the vector found in the
  cipher text), the decoding of a mnemonic, the extended key strings, child derivation,
  the public key of a private key and the address of a public key.
\<close>

record prims =
  aes_encrypt :: "string \<Rightarrow> string \<Rightarrow> bytes \<Rightarrow> string"
  aes_decrypt :: "string \<Rightarrow> string \<Rightarrow> py_error + (string \<times> bytes)"
  mnemonic_decode :: "string \<Rightarrow> py_error + int"
  from_extended_key_string :: "string \<Rightarrow> py_error + PrivateKey"
  extended_key_string :: "PrivateKey \<Rightarrow> string"
  pub_extended_key_string :: "PublicKey \<Rightarrow> string"
  priv_child :: "PrivateKey \<Rightarrow> int \<Rightarrow> PrivateKey"
  pub_child :: "PublicKey \<Rightarrow> int \<Rightarrow> PublicKey"
  public_key_of :: "PrivateKey \<Rightarrow> PublicKey"
  address_of :: "PublicKey \<Rightarrow> string"

section \<open>The address table of the ledger database\<close>

text \<open>
  One row of the address table as \<^verbatim>\<open>db.get_addresses\<close> returns it: the column
  \<^verbatim>\<open>n\<close> is read through \<^verbatim>\<open>address['pubkey'].n\<close>.
\<close>

record address_row =
  address :: string
  row_account :: string
  row_chain :: int
  used_times :: int
  pubkey :: PublicKey

datatype order_by = N_asc | N_desc | Used_times_asc_n_asc

record constraints =
  limit :: "int option"
  order :: "order_by option"
  used_times__lt :: "int option"

definition no_constraints :: constraints where
  "no_constraints = \<lparr>limit = None, order = None, used_times__lt = None\<rparr>"

record ledger =
  rows :: "address_row list"
  announced :: "(int \<times> string list) list"

definition order_rows :: "order_by option \<Rightarrow> address_row list \<Rightarrow> address_row list" where
  "order_rows ob xs =
     (case ob of
        None \<Rightarrow> xs
      | Some N_asc \<Rightarrow> sort_key (\<lambda>r. pub_n (pubkey r)) xs
      | Some N_desc \<Rightarrow> sort_key (\<lambda>r. - pub_n (pubkey r)) xs
      | Some Used_times_asc_n_asc \<Rightarrow>
          sort_key used_times (sort_key (\<lambda>r. pub_n (pubkey r)) xs))"

definition limit_rows :: "int option \<Rightarrow> address_row list \<Rightarrow> address_row list" where
  "limit_rows l xs = (case l of None \<Rightarrow> xs | Some k \<Rightarrow> take (nat k) xs)"

text \<open>
  Modelled from the spec: \<^verbatim>\<open>ledger.db.get_addresses\<close> is missing from the sources.
  The spec has the managers read the addresses of one account and one chain,
  in ascending or descending index order, the last \<^verbatim>\<open>gap\<close> of them, or those with
  \<^verbatim>\<open>used_times < maximum_uses_per_address\<close>. The query keeps the rows of the account
  and chain that satisfy the filter, orders them, and cuts the result at the limit.
\<close>

definition get_addresses_db ::
  "ledger \<Rightarrow> string \<Rightarrow> int \<Rightarrow> constraints \<Rightarrow> address_row list" where
  "get_addresses_db db acct ch c =
     limit_rows (limit c) (order_rows (order c)
       (filter (\<lambda>r. row_account r = acct \<and> row_chain r = ch \<and>
                     (case used_times__lt c of None \<Rightarrow> True | Some m \<Rightarrow> used_times r < m))
          (rows db)))"

text \<open>
  Modelled from the spec: \<^verbatim>\<open>ledger.db.add_keys\<close> is missing from the sources.
  The spec has the generated addresses persisted; each key becomes a row of the
  account and chain that has never been used.
\<close>

definition add_keys ::
  "prims \<Rightarrow> ledger \<Rightarrow> string \<Rightarrow> int \<Rightarrow> PublicKey list \<Rightarrow> ledger" where
  "add_keys P db acct ch keys =
     db\<lparr>rows := rows db @
          map (\<lambda>k. \<lparr>address = address_of P k, row_account = acct, row_chain = ch,
                     used_times = 0, pubkey = k\<rparr>) keys\<rparr>"

text \<open>
  Modelled from the spec: \<^verbatim>\<open>ledger.announce_addresses\<close> is missing from the sources.
  The announcement is recorded with the chain of the announcing manager.
\<close>

definition announce_addresses :: "ledger \<Rightarrow> int \<Rightarrow> string list \<Rightarrow> ledger" where
  "announce_addresses db ch new_keys = db\<lparr>announced := announced db @ [(ch, new_keys)]\<rparr>"

section \<open>Address managers\<close>

text \<open>
  The two subclasses of \<^verbatim>\<open>AddressManager\<close>. The account is kept by its id, the
  lock of the generator by its state.
\<close>

datatype manager_kind = HierarchicalDeterministic | SingleKey

record AddressManager =
  kind :: manager_kind
  am_account :: string
  am_public_key :: PublicKey
  chain_number :: int
  address_generator_lock :: bool
  gap :: int
  maximum_uses_per_address :: int

definition query_addresses ::
  "AddressManager \<Rightarrow> ledger \<Rightarrow> constraints \<Rightarrow> address_row list" where
  "query_addresses am db c = get_addresses_db db (am_account am) (chain_number am) c"

subsection \<open>\<^verbatim>\<open>HierarchicalDeterministic.get_max_gap\<close>\<close>

text \<open>The loop of \<^verbatim>\<open>get_max_gap\<close>, with its two counters as arguments.\<close>

fun max_gap_loop :: "address_row list \<Rightarrow> int \<Rightarrow> int \<Rightarrow> int" where
  "max_gap_loop [] max_gap current_gap = max_gap"
| "max_gap_loop (a # addresses) max_gap current_gap =
     (if used_times a = 0
      then max_gap_loop addresses max_gap (current_gap + 1)
      else max_gap_loop addresses (max max_gap current_gap) 0)"

definition HD_get_max_gap :: "AddressManager \<Rightarrow> ledger \<Rightarrow> int" where
  "HD_get_max_gap am db =
     (let addresses = query_addresses am db (no_constraints\<lparr>order := Some N_asc\<rparr>)
      in max_gap_loop addresses 0 0)"


text \<open>\<^verbatim>\<open>SingleKey.get_max_gap\<close> returns 0; the account calls the method of the class.\<close>

definition get_max_gap :: "AddressManager \<Rightarrow> ledger \<Rightarrow> int" where
  "get_max_gap am db =
     (case kind am of
        HierarchicalDeterministic \<Rightarrow> HD_get_max_gap am db
      | SingleKey \<Rightarrow> 0)"

subsection \<open>\<^verbatim>\<open>ensure_address_gap\<close> and \<^verbatim>\<open>_generate_keys\<close>\<close>

text \<open>The counting loop of \<^verbatim>\<open>ensure_address_gap\<close>; it leaves at the first used address.\<close>

fun existing_gap_loop :: "address_row list \<Rightarrow> int \<Rightarrow> int" where
  "existing_gap_loop [] existing_gap = existing_gap"
| "existing_gap_loop (a # addresses) existing_gap =
     (if used_times a = 0 then existing_gap_loop addresses (existing_gap + 1)
      else existing_gap)"

text \<open>Python's \<^verbatim>\<open>range(start, stop)\<close>.\<close>

definition py_range :: "int \<Rightarrow> int \<Rightarrow> int list" where
  "py_range start stop = [start..stop - 1]"

text \<open>
  \<^verbatim>\<open>_generate_keys(start, end)\<close> raises outside of the generator lock; otherwise
  it derives the children \<^verbatim>\<open>start..end\<close>, stores them and returns their addresses.
\<close>

definition generate_keys ::
  "prims \<Rightarrow> AddressManager \<Rightarrow> ledger \<Rightarrow> int \<Rightarrow> int \<Rightarrow> (py_error + string list) \<times> ledger" where
  "generate_keys P am db start last_index =
     (if \<not> address_generator_lock am then (Inl RuntimeError, db)
      else
        let keys = map (pub_child P (am_public_key am)) (py_range start (last_index + 1));
            db' = add_keys P db (am_account am) (chain_number am) keys
        in (Inr (map (address_of P) keys), db'))"

text \<open>
  \<^verbatim>\<open>HierarchicalDeterministic.ensure_address_gap\<close>. The body runs with the lock
  held; the lock is released on every way out, so the manager itself is unchanged.
  A call made while another task holds the lock waits for it; the sequential model
  starts with the lock free.
\<close>

definition HD_ensure_address_gap ::
  "prims \<Rightarrow> AddressManager \<Rightarrow> ledger \<Rightarrow> (py_error + string list) \<times> ledger" where
  "HD_ensure_address_gap P am db =
     (let locked = am\<lparr>address_generator_lock := True\<rparr>;
          addresses = query_addresses locked db
                        (no_constraints\<lparr>limit := Some (gap am), order := Some N_desc\<rparr>);
          existing_gap = existing_gap_loop addresses 0
      in if existing_gap = gap am then (Inr [], db)
         else
           let start = (case addresses of [] \<Rightarrow> 0 | a # _ \<Rightarrow> pub_n (pubkey a) + 1);
               stop = start + (gap am - existing_gap)
           in case generate_keys P locked db start (stop - 1) of
                (Inl e, db') \<Rightarrow> (Inl e, db')
              | (Inr new_keys, db') \<Rightarrow>
                  (Inr new_keys, announce_addresses db' (chain_number am) new_keys))"

text \<open>\<^verbatim>\<open>get_address_records\<close> of the two classes.\<close>

definition HD_get_address_records ::
  "AddressManager \<Rightarrow> ledger \<Rightarrow> bool \<Rightarrow> constraints \<Rightarrow> address_row list" where
  "HD_get_address_records am db only_usable c =
     (let c1 = (if only_usable then c\<lparr>used_times__lt := Some (maximum_uses_per_address am)\<rparr>
                else c);
          c2 = (if order c1 = None then c1\<lparr>order := Some Used_times_asc_n_asc\<rparr> else c1)
      in query_addresses am db c2)"

definition SingleKey_get_address_records ::
  "AddressManager \<Rightarrow> ledger \<Rightarrow> bool \<Rightarrow> constraints \<Rightarrow> address_row list" where
  "SingleKey_get_address_records am db only_usable c = query_addresses am db c"

definition get_address_records ::
  "AddressManager \<Rightarrow> ledger \<Rightarrow> bool \<Rightarrow> constraints \<Rightarrow> address_row list" where
  "get_address_records am db only_usable c =
     (case kind am of
        HierarchicalDeterministic \<Rightarrow> HD_get_address_records am db only_usable c
      | SingleKey \<Rightarrow> SingleKey_get_address_records am db only_usable c)"

definition get_addresses ::
  "AddressManager \<Rightarrow> ledger \<Rightarrow> bool \<Rightarrow> constraints \<Rightarrow> string list" where
  "get_addresses am db only_usable c = map address (get_address_records am db only_usable c)"

definition SingleKey_ensure_address_gap ::
  "prims \<Rightarrow> AddressManager \<Rightarrow> ledger \<Rightarrow> (py_error + string list) \<times> ledger" where
  "SingleKey_ensure_address_gap P am db =
     (let exists = SingleKey_get_address_records am db False no_constraints
      in if exists = []
         then
           let db' = add_keys P db (am_account am) (chain_number am) [am_public_key am];
               new_keys = [address_of P (am_public_key am)]
           in (Inr new_keys, announce_addresses db' (chain_number am) new_keys)
         else (Inr [], db))"

definition ensure_address_gap ::
  "prims \<Rightarrow> AddressManager \<Rightarrow> ledger \<Rightarrow> (py_error + string list) \<times> ledger" where
  "ensure_address_gap P am db =
     (case kind am of
        HierarchicalDeterministic \<Rightarrow> HD_ensure_address_gap P am db
      | SingleKey \<Rightarrow> SingleKey_ensure_address_gap P am db)"

text \<open>
  \<^verbatim>\<open>random.choice\<close> on a list that is not empty; \<open>rnd\<close> is the number the
  generator draws.
\<close>

definition random_choice :: "nat \<Rightarrow> 'a list \<Rightarrow> 'a" where
  "random_choice rnd xs = xs ! (rnd mod length xs)"

text \<open>
  \<^verbatim>\<open>AddressManager.get_or_create_usable_address\<close>; \<^verbatim>\<open>addresses[0]\<close> raises
  \<^verbatim>\<open>IndexError\<close> on an empty list.
\<close>

definition get_or_create_usable_address ::
  "prims \<Rightarrow> AddressManager \<Rightarrow> ledger \<Rightarrow> nat \<Rightarrow> (py_error + string) \<times> ledger" where
  "get_or_create_usable_address P am db rnd =
     (let addresses = get_addresses am db True (no_constraints\<lparr>limit := Some 10\<rparr>)
      in if addresses \<noteq> [] then (Inr (random_choice rnd addresses), db)
         else case ensure_address_gap P am db of
                (Inl e, db') \<Rightarrow> (Inl e, db')
              | (Inr new_addresses, db') \<Rightarrow>
                  (case new_addresses of
                     [] \<Rightarrow> (Inl IndexError, db')
                   | a # _ \<Rightarrow> (Inr a, db')))"


section \<open>Accounts\<close>

text \<open>
  The state of an \<^verbatim>\<open>Account\<close>. The ledger is kept by its id, the class of the
  address generator by the kind of manager it builds.
\<close>

record Account =
  ledger_id :: string
  account_id :: string
  name :: string
  seed :: string
  modified_on :: int
  private_key_string :: string
  init_vectors :: "string \<rightharpoonup> bytes"
  encrypted :: bool
  private_key :: "PrivateKey option"
  public_key :: PublicKey
  address_generator :: manager_kind
  receiving :: AddressManager
  change :: AddressManager
  channel_keys :: "(string \<times> string) list"

text \<open>
  \<^verbatim>\<open>os.urandom\<close> reads the random source of the operating system. The source is
  an explicit stream of bytes; a read returns its first bytes and the rest of the
  stream.
\<close>

type_synonym urandom = "nat \<Rightarrow> char"

definition os_urandom :: "nat \<Rightarrow> urandom \<Rightarrow> bytes \<times> urandom" where
  "os_urandom k r = (map r [0..<k], \<lambda>i. r (i + k))"

definition get_init_vector :: "Account \<Rightarrow> string \<Rightarrow> urandom \<Rightarrow> bytes \<times> Account \<times> urandom" where
  "get_init_vector a key r =
     (case init_vectors a key of
        Some init_vector \<Rightarrow> (init_vector, a, r)
      | None \<Rightarrow>
          (case os_urandom 16 r of
             (init_vector, r') \<Rightarrow>
               (init_vector, a\<lparr>init_vectors := (init_vectors a)(key \<mapsto> init_vector)\<rparr>, r')))"

subsection \<open>\<^verbatim>\<open>to_dict\<close>\<close>

record generator_dict =
  g_name :: string
  g_receiving :: "(int \<times> int) option"
  g_change :: "(int \<times> int) option"

record account_dict =
  d_ledger :: string
  d_name :: string
  d_seed :: string
  d_encrypted :: bool
  d_private_key :: string
  d_public_key :: string
  d_address_generator :: generator_dict
  d_modified_on :: int
  d_certificates :: "(string \<times> string) list option"

definition generator_name :: "manager_kind \<Rightarrow> string" where
  "generator_name k =
     (case k of HierarchicalDeterministic \<Rightarrow> ''deterministic-chain''
              | SingleKey \<Rightarrow> ''single-address'')"

text \<open>
  \<^verbatim>\<open>to_dict_instance\<close>: the pair is the dictionary with the keys \<^verbatim>\<open>gap\<close> and
  \<^verbatim>\<open>maximum_uses_per_address\<close>; the single-address manager returns \<^verbatim>\<open>None\<close>.
\<close>

definition to_dict_instance :: "manager_kind \<Rightarrow> AddressManager \<Rightarrow> (int \<times> int) option" where
  "to_dict_instance k am =
     (case k of HierarchicalDeterministic \<Rightarrow> Some (gap am, maximum_uses_per_address am)
              | SingleKey \<Rightarrow> None)"

definition generator_to_dict :: "manager_kind \<Rightarrow> AddressManager \<Rightarrow> AddressManager \<Rightarrow> generator_dict" where
  "generator_to_dict k rcv chg =
     \<lparr>g_name = generator_name k, g_receiving = to_dict_instance k rcv,
      g_change = to_dict_instance k chg\<rparr>"

text \<open>Python's truth value of an optional string argument.\<close>

definition truthy :: "string option \<Rightarrow> bool" where
  "truthy s = (case s of None \<Rightarrow> False | Some t \<Rightarrow> t \<noteq> [])"

definition to_dict ::
  "prims \<Rightarrow> Account \<Rightarrow> string option \<Rightarrow> bool \<Rightarrow> urandom \<Rightarrow> account_dict \<times> Account \<times> urandom" where
  "to_dict P a encrypt_password include_channel_keys r =
     (let pks0 = (case private_key a of
                    Some k \<Rightarrow> if \<not> encrypted a then extended_key_string P k
                              else private_key_string a
                  | None \<Rightarrow> private_key_string a)
      in case (if \<not> encrypted a \<and> truthy encrypt_password \<and> pks0 \<noteq> []
               then (case get_init_vector a ''private_key'' r of
                       (iv, a', r') \<Rightarrow> (aes_encrypt P (the encrypt_password) pks0 iv, a', r'))
               else (pks0, a, r)) of
           (pks1, a1, r1) \<Rightarrow>
             (case (if \<not> encrypted a \<and> truthy encrypt_password \<and> seed a \<noteq> []
                    then (case get_init_vector a1 ''seed'' r1 of
                            (iv, a', r') \<Rightarrow> (aes_encrypt P (the encrypt_password) (seed a) iv, a', r'))
                    else (seed a, a1, r1)) of
                (seed1, a2, r2) \<Rightarrow>
                  (\<lparr>d_ledger = ledger_id a,
                    d_name = name a,
                    d_seed = seed1,
                    d_encrypted = (encrypted a \<or> truthy encrypt_password),
                    d_private_key = pks1,
                    d_public_key = pub_extended_key_string P (public_key a),
                    d_address_generator =
                      generator_to_dict (address_generator a) (receiving a) (change a),
                    d_modified_on = modified_on a,
                    d_certificates =
                      (if include_channel_keys then Some (channel_keys a) else None)\<rparr>,
                   a2, r2)))"

subsection \<open>\<^verbatim>\<open>encrypt\<close> and \<^verbatim>\<open>decrypt\<close>\<close>

text \<open>
  \<^verbatim>\<open>_decrypt_seed\<close>. The tuple assignment stores the vector of the cipher text in
  \<^verbatim>\<open>init_vectors\<close> as soon as \<^verbatim>\<open>aes_decrypt\<close> has returned; an
  \<^verbatim>\<open>IndexError\<close> of the mnemonic decoder is raised again as \<^verbatim>\<open>ValueError\<close>.
\<close>

definition decrypt_seed :: "prims \<Rightarrow> Account \<Rightarrow> string \<Rightarrow> (py_error + string) \<times> Account" where
  "decrypt_seed P a password =
     (if seed a = [] then (Inr [], a)
      else case aes_decrypt P password (seed a) of
             Inl e \<Rightarrow> (Inl e, a)
           | Inr (s, iv) \<Rightarrow>
               (let a' = a\<lparr>init_vectors := (init_vectors a)(''seed'' \<mapsto> iv)\<rparr>
                in if s = [] then (Inr [], a')
                   else case mnemonic_decode P s of
                          Inl e \<Rightarrow> (if e = IndexError then (Inl ValueError, a') else (Inl e, a'))
                        | Inr _ \<Rightarrow> (Inr s, a')))"

definition decrypt_private_key_string ::
  "prims \<Rightarrow> Account \<Rightarrow> string \<Rightarrow> (py_error + PrivateKey option) \<times> Account" where
  "decrypt_private_key_string P a password =
     (if private_key_string a = [] then (Inr None, a)
      else case aes_decrypt P password (private_key_string a) of
             Inl e \<Rightarrow> (Inl e, a)
           | Inr (s, iv) \<Rightarrow>
               (let a' = a\<lparr>init_vectors := (init_vectors a)(''private_key'' \<mapsto> iv)\<rparr>
                in if s = [] then (Inr None, a')
                   else case from_extended_key_string P s of
                          Inl e \<Rightarrow> (Inl e, a')
                        | Inr k \<Rightarrow> (Inr (Some k), a')))"

definition decrypt :: "prims \<Rightarrow> Account \<Rightarrow> string \<Rightarrow> (py_error + bool) \<times> Account" where
  "decrypt P a password =
     (if \<not> encrypted a then (Inl AssertionError, a)
      else case decrypt_seed P a password of
             (Inl e, a1) \<Rightarrow>
               (if e = ValueError \<or> e = InvalidPasswordError then (Inr False, a1)
                else (Inl e, a1))
           | (Inr s, a1) \<Rightarrow>
               (case decrypt_private_key_string P a1 password of
                  (Inl e, a2) \<Rightarrow>
                    (if e = TypeError \<or> e = ValueError \<or> e = InvalidPasswordError
                     then (Inr False, a2) else (Inl e, a2))
                | (Inr k, a2) \<Rightarrow>
                    (Inr True,
                     a2\<lparr>seed := s, private_key := k, private_key_string := [],
                        encrypted := False\<rparr>)))"

definition encrypt ::
  "prims \<Rightarrow> Account \<Rightarrow> string \<Rightarrow> urandom \<Rightarrow> (py_error + bool) \<times> Account \<times> urandom" where
  "encrypt P a password r =
     (if encrypted a then (Inl AssertionError, a, r)
      else case (if seed a \<noteq> []
                 then (case get_init_vector a ''seed'' r of
                         (iv, a', r') \<Rightarrow> (a'\<lparr>seed := aes_encrypt P password (seed a) iv\<rparr>, r'))
                 else (a, r)) of
             (a1, r1) \<Rightarrow>
               (case (case private_key a1 of
                        Some k \<Rightarrow>
                          (case get_init_vector a1 ''private_key'' r1 of
                             (iv, a', r') \<Rightarrow>
                               (a'\<lparr>private_key_string :=
                                      aes_encrypt P password (extended_key_string P k) iv,
                                    private_key := None\<rparr>, r'))
                      | None \<Rightarrow> (a1, r1)) of
                  (a2, r2) \<Rightarrow> (Inr True, a2\<lparr>encrypted := True\<rparr>, r2)))"

section \<open>Deterministic channel keys\<close>

record DeterministicChannelKeyManager =
  last_known :: int
  cache :: "string \<rightharpoonup> PrivateKey"
  channel_private_key :: "PrivateKey option"

definition new_channel_key_manager ::
  "prims \<Rightarrow> PrivateKey option \<Rightarrow> DeterministicChannelKeyManager" where
  "new_channel_key_manager P account_private_key =
     \<lparr>last_known = 0, cache = Map.empty,
      channel_private_key =
        (case account_private_key of
           None \<Rightarrow> None
         | Some k \<Rightarrow> Some (priv_child P k KeyPath_CHANNEL))\<rparr>"

text \<open>
  \<^verbatim>\<open>maybe_generate_deterministic_key_for_channel(txo)\<close>; of the output only
  \<^verbatim>\<open>txo.claim.channel.public_key_bytes\<close> is read.
\<close>

definition maybe_generate_deterministic_key_for_channel ::
  "prims \<Rightarrow> DeterministicChannelKeyManager \<Rightarrow> bytes \<Rightarrow> DeterministicChannelKeyManager" where
  "maybe_generate_deterministic_key_for_channel P m channel_public_key_bytes =
     (case channel_private_key m of
        None \<Rightarrow> m
      | Some k \<Rightarrow>
          (let next_private_key = priv_child P k (last_known m);
               public_key = public_key_of P next_private_key
           in if channel_public_key_bytes = pubkey_bytes public_key
              then m\<lparr>cache := (cache m)(address_of P public_key \<mapsto> next_private_key),
                     last_known := last_known m + 1\<rparr>
              else m))"

text \<open>
  \<^verbatim>\<open>generate_next_key\<close>. The loop has no bound: it ends at the first child whose
  public key the database does not know as a channel key, and \<open>None\<close> is the run that
  never ends. \<^verbatim>\<open>db.is_channel_key_used\<close> is the parameter \<open>used\<close>. Without a private
  key \<^verbatim>\<open>self.private_key.child\<close> raises \<^verbatim>\<open>AttributeError\<close>.
\<close>

partial_function (option) generate_next_key ::
  "prims \<Rightarrow> (PublicKey \<Rightarrow> bool) \<Rightarrow> DeterministicChannelKeyManager \<Rightarrow>
     ((py_error + PrivateKey) \<times> DeterministicChannelKeyManager) option" where
  "generate_next_key P used m =
     (case channel_private_key m of
        None \<Rightarrow> Some (Inl AttributeError, m)
      | Some k \<Rightarrow>
          (let next_private_key = priv_child P k (last_known m);
               public_key = public_key_of P next_private_key;
               m' = m\<lparr>cache := (cache m)(address_of P public_key \<mapsto> next_private_key)\<rparr>
           in if \<not> used public_key then Some (Inr next_private_key, m')
              else generate_next_key P used (m'\<lparr>last_known := last_known m' + 1\<rparr>)))"

definition get_private_key_from_pubkey_hash ::
  "DeterministicChannelKeyManager \<Rightarrow> string \<Rightarrow> PrivateKey option" where
  "get_private_key_from_pubkey_hash m pubkey_hash = cache m pubkey_hash"


section \<open>Claimtrie: activation heights, and what the tests observe\<close>

text \<open>
  Modelled from the spec: the claimtrie engine that assigns activation heights is missing
  from the sources; only its integration tests are there. The spec has a claim that
  enters at height \<open>h_c\<close> while a controlling claim exists at height \<open>h_ctrl\<close> activate
  at \<open>h_c + min(floor((h_c - h_ctrl) / 32), 4032)\<close>, and a claim that enters a name
  without a controlling claim activate at \<open>h_c\<close>. The quotient is the integer division
  of the heights.
\<close>

definition activation_height :: "int \<Rightarrow> int option \<Rightarrow> int" where
  "activation_height h_c controlling =
     (case controlling of
        None \<Rightarrow> h_c
      | Some h_ctrl \<Rightarrow> h_c + min ((h_c - h_ctrl) div 32) 4032)"

text \<open>
  What \<^verbatim>\<open>test_example_from_spec\<close> asserts for each claim in the block after it
  entered: the height of entry, the takeover height of the controlling claim at that
  moment (none for the first claim), and the activation height.
\<close>

definition test_example_from_spec :: "(int \<times> int option \<times> int) list" where
  "test_example_from_spec =
     [(113, None, 113), (501, Some 113, 513), (512, Some 113, 524), (520, Some 113, 532)]"

text \<open>
  The rows that \<^verbatim>\<open>test_lbrycrd_database_queries\<close> asserts for
  \<^verbatim>\<open>get_support_metadata(0, 500)\<close>: name, activation height, expiration height. The two
  supports are in block 352, the best height of that chain; the name was taken over at
  height 102.
\<close>

definition test_support_metadata :: "(string \<times> int \<times> int) list" where
  "test_support_metadata = [(''two'', 359, 852), (''two'', 359, 852)]"

text \<open>
  The filter of \<^verbatim>\<open>get_active\<close> in the tests: a claim is listed at the current height
  when its activation height is at most that height, its expiration height is above it,
  and it is not the controlling claim. A claim is its title with its activation and
  expiration heights.
\<close>

definition get_active ::
  "string option \<Rightarrow> int \<Rightarrow> (string \<times> int \<times> int) list \<Rightarrow> (string \<times> int) list" where
  "get_active controlling current_height claims =
     map (\<lambda>(title, activation, expiration). (title, activation))
       (filter (\<lambda>(title, activation, expiration).
                  activation \<le> current_height \<and> expiration > current_height \<and>
                  controlling \<noteq> Some title) claims)"

section \<open>Claim indexer: signatures of channels\<close>

text \<open>
  Modelled from the spec: the claim indexer is missing from the sources; only its
  integration tests are there. The spec has the indexer evaluate the signature of a claim
  or support when it inserts or updates it, against the public key of the signing
  channel; a channel that resets its key does not change what is already indexed, an
  update signed with the wrong key is indexed as invalid, and the counts of a channel
  count the valid signatures. A key pair is a number; a signature is the key that made
  it, and it verifies against the key of the channel when both are the same key.
\<close>

type_synonym channel_key = nat

record signed_txo =
  txo_id :: string
  signing_channel_id :: "string option"
  signed_by :: "channel_key option"
  is_signature_valid :: bool

record claim_index =
  channels :: "string \<rightharpoonup> channel_key"
  indexed_claims :: "signed_txo list"
  indexed_supports :: "signed_txo list"

definition check_signature ::
  "claim_index \<Rightarrow> string option \<Rightarrow> channel_key option \<Rightarrow> bool" where
  "check_signature idx channel signature =
     (case channel of
        None \<Rightarrow> False
      | Some c \<Rightarrow>
          (case signature of
             None \<Rightarrow> False
           | Some k \<Rightarrow> channels idx c = Some k))"

definition index_txo ::
  "claim_index \<Rightarrow> string \<Rightarrow> string option \<Rightarrow> channel_key option \<Rightarrow> signed_txo" where
  "index_txo idx i channel signature =
     \<lparr>txo_id = i, signing_channel_id = channel, signed_by = signature,
      is_signature_valid = check_signature idx channel signature\<rparr>"

datatype sync_op =
    Publish_channel string channel_key
  | Publish_claim string "string option" "channel_key option"
  | Publish_support string "string option" "channel_key option"
  | Abandon_claim string
  | Abandon_support string

fun apply_op :: "claim_index \<Rightarrow> sync_op \<Rightarrow> claim_index" where
  "apply_op idx (Publish_channel c k) = idx\<lparr>channels := (channels idx)(c \<mapsto> k)\<rparr>"
| "apply_op idx (Publish_claim i channel signature) =
     idx\<lparr>indexed_claims :=
           filter (\<lambda>t. txo_id t \<noteq> i) (indexed_claims idx) @ [index_txo idx i channel signature]\<rparr>"
| "apply_op idx (Publish_support i channel signature) =
     idx\<lparr>indexed_supports :=
           filter (\<lambda>t. txo_id t \<noteq> i) (indexed_supports idx) @ [index_txo idx i channel signature]\<rparr>"
| "apply_op idx (Abandon_claim i) =
     idx\<lparr>indexed_claims := filter (\<lambda>t. txo_id t \<noteq> i) (indexed_claims idx)\<rparr>"
| "apply_op idx (Abandon_support i) =
     idx\<lparr>indexed_supports := filter (\<lambda>t. txo_id t \<noteq> i) (indexed_supports idx)\<rparr>"

definition apply_ops :: "claim_index \<Rightarrow> sync_op list \<Rightarrow> claim_index" where
  "apply_ops idx ops = foldl apply_op idx ops"

definition empty_index :: claim_index where
  "empty_index = \<lparr>channels = Map.empty, indexed_claims = [], indexed_supports = []\<rparr>"

definition signature_valid_of :: "signed_txo list \<Rightarrow> string \<Rightarrow> bool option" where
  "signature_valid_of txos i =
     (case filter (\<lambda>t. txo_id t = i) txos of
        [] \<Rightarrow> None
      | t # _ \<Rightarrow> Some (is_signature_valid t))"

definition signed_count :: "signed_txo list \<Rightarrow> string \<Rightarrow> nat" where
  "signed_count txos c =
     length (filter (\<lambda>t. signing_channel_id t = Some c \<and> is_signature_valid t) txos)"

text \<open>
  The steps of \<^verbatim>\<open>test_claim_and_support_signing\<close>, one list per generated block. The
  channel is created with key 1 and reset to key 2; key 3 is generated and never
  broadcast; the second channel has key 4.
\<close>

definition signing_test_blocks :: "sync_op list list" where
  "signing_test_blocks =
     [[Publish_claim ''stream1'' None None],
      [Publish_channel ''channel'' 1],
      [Publish_claim ''stream2'' (Some ''channel'') (Some 1),
       Publish_claim ''stream1'' (Some ''channel'') (Some 1),
       Publish_support ''support'' (Some ''channel'') (Some 1)],
      [Publish_channel ''channel'' 2],
      [Publish_claim ''stream2'' (Some ''channel'') (Some 3)],
      [Publish_claim ''stream2'' (Some ''channel'') (Some 2)],
      [Publish_channel ''channel2'' 4,
       Publish_claim ''stream2'' (Some ''channel2'') (Some 4)],
      [Abandon_claim ''stream2'', Abandon_support ''support'']]"

text \<open>
  What \<^verbatim>\<open>assert_channel_stream1_stream2_support\<close> reads: the two counts of the first
  channel, and the validity of the two streams and of the support.
\<close>

definition signing_state ::
  "claim_index \<Rightarrow> nat \<times> nat \<times> bool option \<times> bool option \<times> bool option" where
  "signing_state idx =
     (signed_count (indexed_claims idx) ''channel'',
      signed_count (indexed_supports idx) ''channel'',
      signature_valid_of (indexed_claims idx) ''stream1'',
      signature_valid_of (indexed_claims idx) ''stream2'',
      signature_valid_of (indexed_supports idx) ''support'')"


section \<open>Reference definitions and example values\<close>

text \<open>
  The quantity the specification describes for \<^verbatim>\<open>get_max_gap\<close>: for every position
  of the list, the number of unused addresses that follow one another from there; the
  longest run is the largest of these numbers, wherever the run ends.
\<close>

definition longest_unused_run :: "address_row list \<Rightarrow> int" where
  "longest_unused_run addresses =
     foldr max
       (map (\<lambda>i. int (length (takeWhile (\<lambda>a. used_times a = 0) (drop i addresses))))
          [0..<length addresses]) 0"

text \<open>
  A small instance of the parameters, with which the functions can be run: the cipher
  text is the vector, a mark that depends on the password only through the parity of its
  length (so that some wrong passwords pass the check of the padding and give a wrong
  plain text, as with AES), the password and the plain text. A mnemonic is made of
  lower case letters and spaces.
\<close>

definition toy_mark :: "string \<Rightarrow> char" where
  "toy_mark password = (if even (length password) then CHR ''0'' else CHR ''1'')"

definition toy_aes_encrypt :: "string \<Rightarrow> string \<Rightarrow> bytes \<Rightarrow> string" where
  "toy_aes_encrypt password v iv = iv @ toy_mark password # password @ v"

definition toy_aes_decrypt :: "string \<Rightarrow> string \<Rightarrow> py_error + (string \<times> bytes)" where
  "toy_aes_decrypt password v =
     (case drop 16 v of
        [] \<Rightarrow> Inl ValueError
      | m # body \<Rightarrow>
          if m = toy_mark password then Inr (drop (length password) body, take 16 v)
          else Inl InvalidPasswordError)"

definition toy_mnemonic_decode :: "string \<Rightarrow> py_error + int" where
  "toy_mnemonic_decode s =
     (if set s \<subseteq> set ''abcdefghijklmnopqrstuvwxyz '' then Inr (int (length s))
      else Inl IndexError)"

definition toy_from_extended_key_string :: "string \<Rightarrow> py_error + PrivateKey" where
  "toy_from_extended_key_string s =
     (if take 4 s = ''xprv''
      then Inr \<lparr>secret = drop 4 s, priv_chain_code = [], priv_n = 0, priv_depth = 0\<rparr>
      else Inl ValueError)"

definition toy_index :: "int \<Rightarrow> string" where
  "toy_index i = (if i < 0 then CHR ''-'' else CHR ''+'') # replicate (nat \<bar>i\<bar>) CHR ''I''"

definition toy_prims :: prims where
  "toy_prims =
     \<lparr>aes_encrypt = toy_aes_encrypt,
      aes_decrypt = toy_aes_decrypt,
      mnemonic_decode = toy_mnemonic_decode,
      from_extended_key_string = toy_from_extended_key_string,
      extended_key_string = (\<lambda>k. ''xprv'' @ secret k),
      pub_extended_key_string = (\<lambda>k. ''xpub'' @ pubkey_bytes k),
      priv_child = (\<lambda>k i. k\<lparr>priv_n := i, priv_depth := priv_depth k + 1\<rparr>),
      pub_child = (\<lambda>k i. k\<lparr>pub_n := i, pub_depth := pub_depth k + 1\<rparr>),
      public_key_of = (\<lambda>k. \<lparr>pubkey_bytes = secret k, pub_chain_code = priv_chain_code k,
                               pub_n = priv_n k, pub_depth = priv_depth k\<rparr>),
      address_of = (\<lambda>k. pubkey_bytes k @ toy_index (pub_n k))\<rparr>"

definition example_private_key :: PrivateKey where
  "example_private_key = \<lparr>secret = ''S'', priv_chain_code = [], priv_n = 0, priv_depth = 0\<rparr>"

definition example_key :: "int \<Rightarrow> PublicKey" where
  "example_key i = \<lparr>pubkey_bytes = ''S'', pub_chain_code = [], pub_n = i, pub_depth = 1\<rparr>"

definition example_row :: "int \<Rightarrow> int \<Rightarrow> address_row" where
  "example_row i u =
     \<lparr>address = ''S'' @ toy_index i, row_account = ''acct'', row_chain = 0,
      used_times = u, pubkey = example_key i\<rparr>"

definition example_manager :: "manager_kind \<Rightarrow> AddressManager" where
  "example_manager k =
     \<lparr>kind = k, am_account = ''acct'',
      am_public_key = \<lparr>pubkey_bytes = ''S'', pub_chain_code = [], pub_n = 0, pub_depth = 0\<rparr>,
      chain_number = 0, address_generator_lock = False, gap = 3,
      maximum_uses_per_address = 1\<rparr>"

definition example_ledger :: "address_row list \<Rightarrow> ledger" where
  "example_ledger rs = \<lparr>rows = rs, announced = []\<rparr>"

definition example_urandom :: urandom where
  "example_urandom = (\<lambda>i. CHR ''r'')"

definition example_account :: Account where
  "example_account =
     \<lparr>ledger_id = ''lbc_regtest'', account_id = ''S+'', name = ''example'',
      seed = ''abandon ability'', modified_on = 0, private_key_string = [],
      init_vectors = Map.empty, encrypted = False,
      private_key = Some example_private_key,
      public_key = \<lparr>pubkey_bytes = ''S'', pub_chain_code = [], pub_n = 0, pub_depth = 0\<rparr>,
      address_generator = HierarchicalDeterministic,
      receiving = example_manager HierarchicalDeterministic,
      change = (example_manager HierarchicalDeterministic)\<lparr>chain_number := 1\<rparr>,
      channel_keys = []\<rparr>"

text \<open>
  The account above as a wallet file holds it after it was encrypted with the password
  \<^verbatim>\<open>pw12\<close>: the two cipher texts, no private key, and no vector kept in memory.
\<close>

definition example_encrypted_account :: Account where
  "example_encrypted_account =
     example_account
       \<lparr>seed := toy_aes_encrypt ''pw12'' ''abandon ability'' ''0123456789abcdef'',
        private_key_string := toy_aes_encrypt ''pw12'' ''xprvS'' ''fedcba9876543210'',
        private_key := None, encrypted := True\<rparr>"

definition example_channel_keys :: DeterministicChannelKeyManager where
  "example_channel_keys = new_channel_key_manager toy_prims (Some example_private_key)"


text \<open>
  The quantities the specification names for \<^verbatim>\<open>ensure_address_gap\<close>: the rows of
  the chain of a manager; the number of unused addresses at the head of the last
  \<^verbatim>\<open>gap\<close> addresses in descending index order; and the index after the largest
  index of the chain (0 for a chain without addresses).
\<close>

definition chain_rows :: "AddressManager \<Rightarrow> ledger \<Rightarrow> address_row list" where
  "chain_rows am db =
     filter (\<lambda>r. row_account r = am_account am \<and> row_chain r = chain_number am) (rows db)"

definition trailing_unused :: "AddressManager \<Rightarrow> ledger \<Rightarrow> int" where
  "trailing_unused am db =
     int (length (takeWhile (\<lambda>a. used_times a = 0)
       (take (nat (gap am)) (sort_key (\<lambda>r. - pub_n (pubkey r)) (chain_rows am db)))))"

definition next_index :: "AddressManager \<Rightarrow> ledger \<Rightarrow> int" where
  "next_index am db =
     (if chain_rows am db = [] then 0
      else Max ((\<lambda>r. pub_n (pubkey r)) ` set (chain_rows am db)) + 1)"

text \<open>
  What \<^verbatim>\<open>encrypt\<close> and \<^verbatim>\<open>decrypt\<close> need from the cipher of
  \<^verbatim>\<open>lbry.crypto.crypt\<close>: under one password and a vector of 16 bytes, a cipher text is
  not the empty string, and \<^verbatim>\<open>aes_decrypt\<close> returns the plain text and the vector of
  \<^verbatim>\<open>aes_encrypt\<close>. The vectors an account holds come from \<^verbatim>\<open>os.urandom(16)\<close> or from
  a cipher text: they have 16 bytes.
\<close>

definition cipher_round_trip :: "prims \<Rightarrow> string \<Rightarrow> bool" where
  "cipher_round_trip P password =
     (\<forall>v iv. length iv = 16 \<longrightarrow>
        aes_encrypt P password v iv \<noteq> [] \<and>
        aes_decrypt P password (aes_encrypt P password v iv) = Inr (v, iv))"

definition vectors_ok :: "Account \<Rightarrow> bool" where
  "vectors_ok a = (\<forall>key iv. init_vectors a key = Some iv \<longrightarrow> length iv = 16)"

text \<open>
  The channel key manager as a transition system. A cache holds derived keys when every
  entry is a child of the channel key, stored under the address of its public key; the
  cache of a new manager is empty. The addresses are hashes of the public keys; that the
  addresses of two different children do not collide is a property of the hash.
  An operation of the manager is a call of
  \<^verbatim>\<open>maybe_generate_deterministic_key_for_channel\<close>, or a call of
  \<^verbatim>\<open>generate_next_key\<close> that returns.
\<close>

definition collision_free :: "prims \<Rightarrow> PrivateKey \<Rightarrow> bool" where
  "collision_free P k =
     (\<forall>i j. address_of P (public_key_of P (priv_child P k i))
              = address_of P (public_key_of P (priv_child P k j))
            \<longrightarrow> priv_child P k i = priv_child P k j)"

definition derived_cache :: "prims \<Rightarrow> DeterministicChannelKeyManager \<Rightarrow> bool" where
  "derived_cache P m =
     (\<forall>addr key. cache m addr = Some key \<longrightarrow>
        (\<exists>k i. channel_private_key m = Some k \<and> key = priv_child P k i \<and>
               addr = address_of P (public_key_of P key)))"

inductive key_manager_op ::
  "prims \<Rightarrow> DeterministicChannelKeyManager \<Rightarrow> DeterministicChannelKeyManager \<Rightarrow> bool"
  for P :: prims where
    maybe_generate:
      "key_manager_op P m (maybe_generate_deterministic_key_for_channel P m channel_public_key_bytes)"
  | next_key:
      "generate_next_key P used m = Some (res, m') \<Longrightarrow> key_manager_op P m m'"

definition cache_grows ::
  "prims \<Rightarrow> DeterministicChannelKeyManager \<Rightarrow> DeterministicChannelKeyManager \<Rightarrow> bool" where
  "cache_grows P m m' =
     (last_known m \<le> last_known m' \<and>
      channel_private_key m' = channel_private_key m \<and>
      (\<forall>addr key. cache m addr = Some key \<longrightarrow> cache m' addr = Some key) \<and>
      (\<forall>addr key. cache m' addr = Some key \<longrightarrow>
         cache m addr = Some key \<or>
         (\<exists>k i. channel_private_key m = Some k \<and> last_known m \<le> i \<and>
                key = priv_child P k i \<and> addr = address_of P (public_key_of P key))))"

text \<open>
  The failures of \<^verbatim>\<open>decrypt\<close> that the specification lists, in terms of what the
  cipher, the mnemonic decoder and the parser of extended keys return. \<open>vector_read\<close> is
  the vector that \<^verbatim>\<open>aes_decrypt\<close> returns for a field: none when the field is empty
  (no call is made) or when the call raises. The seed is validated when it is empty, or
  decrypts to the empty string or to a mnemonic that decodes; only then is the private
  key string decrypted. The padding is invalid when \<^verbatim>\<open>aes_decrypt\<close> raises
  \<^verbatim>\<open>InvalidPasswordError\<close> for a field it is called on; a decrypted seed is no mnemonic
  when the decoder raises \<^verbatim>\<open>IndexError\<close> or \<^verbatim>\<open>ValueError\<close>; a decrypted key string is
  undecodable when the parser raises \<^verbatim>\<open>TypeError\<close> or \<^verbatim>\<open>ValueError\<close>.
\<close>

definition vector_read :: "prims \<Rightarrow> string \<Rightarrow> string \<Rightarrow> bytes option" where
  "vector_read P password cipher_text =
     (if cipher_text = [] then None
      else case aes_decrypt P password cipher_text of
             Inl e \<Rightarrow> None
           | Inr (s, iv) \<Rightarrow> Some iv)"

definition seed_validated :: "prims \<Rightarrow> Account \<Rightarrow> string \<Rightarrow> bool" where
  "seed_validated P a password =
     (seed a = [] \<or>
      (case aes_decrypt P password (seed a) of
         Inl e \<Rightarrow> False
       | Inr (s, iv) \<Rightarrow>
           s = [] \<or> (case mnemonic_decode P s of Inl e \<Rightarrow> False | Inr m \<Rightarrow> True)))"

definition invalid_padding :: "prims \<Rightarrow> Account \<Rightarrow> string \<Rightarrow> bool" where
  "invalid_padding P a password =
     ((seed a \<noteq> [] \<and> aes_decrypt P password (seed a) = Inl InvalidPasswordError) \<or>
      (seed_validated P a password \<and> private_key_string a \<noteq> [] \<and>
       aes_decrypt P password (private_key_string a) = Inl InvalidPasswordError))"

definition seed_not_mnemonic :: "prims \<Rightarrow> Account \<Rightarrow> string \<Rightarrow> bool" where
  "seed_not_mnemonic P a password =
     (seed a \<noteq> [] \<and>
      (case aes_decrypt P password (seed a) of
         Inl e \<Rightarrow> False
       | Inr (s, iv) \<Rightarrow>
           s \<noteq> [] \<and>
           (mnemonic_decode P s = Inl IndexError \<or> mnemonic_decode P s = Inl ValueError)))"

definition undecodable_key :: "prims \<Rightarrow> Account \<Rightarrow> string \<Rightarrow> bool" where
  "undecodable_key P a password =
     (seed_validated P a password \<and> private_key_string a \<noteq> [] \<and>
      (case aes_decrypt P password (private_key_string a) of
         Inl e \<Rightarrow> False
       | Inr (s, iv) \<Rightarrow>
           s \<noteq> [] \<and>
           (from_extended_key_string P s = Inl TypeError \<or>
            from_extended_key_string P s = Inl ValueError)))"

definition decrypt_fails :: "prims \<Rightarrow> Account \<Rightarrow> string \<Rightarrow> bool" where
  "decrypt_fails P a password =
     (invalid_padding P a password \<or> seed_not_mnemonic P a password \<or>
      undecodable_key P a password)"

section \<open>Properties of the address managers\<close>

subsection \<open>\<^verbatim>\<open>get_max_gap\<close>\<close>

lemma max_gap_loop_ge: "max_gap \<le> max_gap_loop xs max_gap current_gap"
proof (induction xs arbitrary: max_gap current_gap)
  case Nil
  show ?case by simp
next
  case (Cons a xs)
  have "max_gap \<le> max max_gap current_gap" by simp
  also have "\<dots> \<le> max_gap_loop xs (max max_gap current_gap) 0" by (rule Cons.IH)
  finally show ?case using Cons.IH[of max_gap "current_gap + 1"] by simp
qed

lemma max_gap_loop_head_run:
  "\<forall>a \<in> set seg. used_times a = 0 \<Longrightarrow> used_times u \<noteq> 0 \<Longrightarrow>
   current_gap + int (length seg) \<le> max_gap_loop (seg @ u # post) max_gap current_gap"
proof (induction seg arbitrary: current_gap)
  case Nil
  have "max max_gap current_gap \<le> max_gap_loop post (max max_gap current_gap) 0"
    by (rule max_gap_loop_ge)
  with Nil show ?case by simp
next
  case (Cons a seg)
  from Cons.IH[of "current_gap + 1"] Cons.prems show ?case by simp
qed

lemma max_gap_loop_upper:
  "\<forall>a \<in> set seg. used_times a = 0 \<Longrightarrow> used_times u \<noteq> 0 \<Longrightarrow> 0 \<le> current_gap \<Longrightarrow>
   int (length seg) \<le> max_gap_loop (pre @ seg @ u # post) max_gap current_gap"
proof (induction pre arbitrary: max_gap current_gap)
  case Nil
  from max_gap_loop_head_run[OF Nil(1,2), of current_gap post max_gap] Nil(3) show ?case by simp
next
  case (Cons p pre)
  show ?case
  proof (cases "used_times p = 0")
    case True
    with Cons.IH[OF Cons.prems(1,2), of "current_gap + 1" max_gap] Cons.prems(3) show ?thesis by simp
  next
    case False
    with Cons.IH[OF Cons.prems(1,2), of 0 "max max_gap current_gap"] show ?thesis by simp
  qed
qed

lemma max_gap_loop_attained:
  "max_gap_loop xs max_gap current_gap = max_gap \<or>
   (\<exists>seg u post. xs = seg @ u # post \<and> (\<forall>a \<in> set seg. used_times a = 0) \<and> used_times u \<noteq> 0 \<and>
       max_gap_loop xs max_gap current_gap = current_gap + int (length seg)) \<or>
   (\<exists>pre seg u post. xs = pre @ seg @ u # post \<and> (\<forall>a \<in> set seg. used_times a = 0) \<and>
       used_times u \<noteq> 0 \<and> max_gap_loop xs max_gap current_gap = int (length seg))"
proof (induction xs arbitrary: max_gap current_gap)
  case Nil
  show ?case by simp
next
  case (Cons x xs)
  show ?case
  proof (cases "used_times x = 0")
    case True
    from Cons.IH[of max_gap "current_gap + 1"]
    consider (a) "max_gap_loop xs max_gap (current_gap + 1) = max_gap"
      | (b) seg u post where "xs = seg @ u # post" "\<forall>a \<in> set seg. used_times a = 0" "used_times u \<noteq> 0"
          "max_gap_loop xs max_gap (current_gap + 1) = current_gap + 1 + int (length seg)"
      | (c) pre seg u post where "xs = pre @ seg @ u # post" "\<forall>a \<in> set seg. used_times a = 0"
          "used_times u \<noteq> 0" "max_gap_loop xs max_gap (current_gap + 1) = int (length seg)"
      by blast
    then show ?thesis
    proof cases
      case a
      with True show ?thesis by simp
    next
      case b
      have "x # xs = (x # seg) @ u # post" using b(1) by simp
      moreover have "\<forall>a \<in> set (x # seg). used_times a = 0" using b(2) True by simp
      moreover have "max_gap_loop (x # xs) max_gap current_gap = current_gap + int (length (x # seg))"
        using b(4) True by simp
      ultimately show ?thesis using b(3) by blast
    next
      case c
      have "x # xs = (x # pre) @ seg @ u # post" using c(1) by simp
      moreover have "max_gap_loop (x # xs) max_gap current_gap = int (length seg)"
        using c(4) True by simp
      ultimately show ?thesis using c(2,3) by blast
    qed
  next
    case False
    from Cons.IH[of "max max_gap current_gap" 0]
    consider (a) "max_gap_loop xs (max max_gap current_gap) 0 = max max_gap current_gap"
      | (b) seg u post where "xs = seg @ u # post" "\<forall>a \<in> set seg. used_times a = 0" "used_times u \<noteq> 0"
          "max_gap_loop xs (max max_gap current_gap) 0 = 0 + int (length seg)"
      | (c) pre seg u post where "xs = pre @ seg @ u # post" "\<forall>a \<in> set seg. used_times a = 0"
          "used_times u \<noteq> 0" "max_gap_loop xs (max max_gap current_gap) 0 = int (length seg)"
      by blast
    then show ?thesis
    proof cases
      case a
      show ?thesis
      proof (cases "current_gap \<le> max_gap")
        case True
        with a False show ?thesis by (simp add: max_def)
      next
        case F: False
        have "x # xs = [] @ x # xs" by simp
        moreover have "max_gap_loop (x # xs) max_gap current_gap = current_gap + int (length ([]::address_row list))"
          using a False F by (simp add: max_def)
        ultimately show ?thesis using False by (metis empty_iff list.set(1))
      qed
    next
      case b
      have "x # xs = [x] @ seg @ u # post" using b(1) by simp
      moreover have "max_gap_loop (x # xs) max_gap current_gap = int (length seg)"
        using b(4) False by simp
      ultimately show ?thesis using b(2,3) by blast
    next
      case c
      have "x # xs = (x # pre) @ seg @ u # post" using c(1) by simp
      moreover have "max_gap_loop (x # xs) max_gap current_gap = int (length seg)"
        using c(4) False by simp
      ultimately show ?thesis using c(2,3) by blast
    qed
  qed
qed

text \<open>
  C3, as amended. \<^verbatim>\<open>get_max_gap\<close> of an HD chain returns the length of the longest run
  of consecutive addresses with \<^verbatim>\<open>used_times == 0\<close> that is followed by a used address,
  in the list of the chain ordered by ascending index; it is 0 when there is no such
  run. A run that extends to the end of the list is not counted.
\<close>

theorem get_max_gap_closed_runs:
  assumes "addresses = query_addresses am db (no_constraints\<lparr>order := Some N_asc\<rparr>)"
  shows "(\<forall>pre seg u post.
            addresses = pre @ seg @ u # post \<and> (\<forall>a \<in> set seg. used_times a = 0) \<and>
            used_times u \<noteq> 0 \<longrightarrow> int (length seg) \<le> HD_get_max_gap am db) \<and>
         (HD_get_max_gap am db = 0 \<or>
          (\<exists>pre seg u post.
             addresses = pre @ seg @ u # post \<and> (\<forall>a \<in> set seg. used_times a = 0) \<and>
             used_times u \<noteq> 0 \<and> HD_get_max_gap am db = int (length seg)))"
proof -
  have g: "HD_get_max_gap am db = max_gap_loop addresses 0 0"
    using assms by (simp add: HD_get_max_gap_def)
  have upper: "\<forall>pre seg u post.
            addresses = pre @ seg @ u # post \<and> (\<forall>a \<in> set seg. used_times a = 0) \<and>
            used_times u \<noteq> 0 \<longrightarrow> int (length seg) \<le> HD_get_max_gap am db"
  proof (intro allI impI)
    fix pre seg u post
    assume h: "addresses = pre @ seg @ u # post \<and> (\<forall>a \<in> set seg. used_times a = 0) \<and>
            used_times u \<noteq> 0"
    have "int (length seg) \<le> max_gap_loop (pre @ seg @ u # post) 0 0"
      by (rule max_gap_loop_upper) (use h in auto)
    with h show "int (length seg) \<le> HD_get_max_gap am db" by (simp add: g)
  qed
  have attained: "HD_get_max_gap am db = 0 \<or>
          (\<exists>pre seg u post.
             addresses = pre @ seg @ u # post \<and> (\<forall>a \<in> set seg. used_times a = 0) \<and>
             used_times u \<noteq> 0 \<and> HD_get_max_gap am db = int (length seg))"
  proof -
    from max_gap_loop_attained[of addresses 0 0]
    consider (a) "max_gap_loop addresses 0 0 = 0"
      | (b) seg u post where "addresses = seg @ u # post" "\<forall>a \<in> set seg. used_times a = 0"
          "used_times u \<noteq> 0" "max_gap_loop addresses 0 0 = 0 + int (length seg)"
      | (c) pre seg u post where "addresses = pre @ seg @ u # post"
          "\<forall>a \<in> set seg. used_times a = 0" "used_times u \<noteq> 0"
          "max_gap_loop addresses 0 0 = int (length seg)"
      by blast
    then show ?thesis
    proof cases
      case a
      then show ?thesis by (simp add: g)
    next
      case b
      have "addresses = [] @ seg @ u # post" using b(1) by simp
      moreover have "HD_get_max_gap am db = int (length seg)" using b(4) by (simp add: g)
      ultimately show ?thesis using b(2,3) by blast
    next
      case c
      have "HD_get_max_gap am db = int (length seg)" using c(4) by (simp add: g)
      with c(1,2,3) show ?thesis by blast
    qed
  qed
  from upper attained show ?thesis by blast
qed

lemma example_query_asc:
  "query_addresses (example_manager HierarchicalDeterministic)
     (example_ledger [example_row 3 0, example_row 2 5, example_row 0 0, example_row 1 0])
     (no_constraints\<lparr>order := Some N_asc\<rparr>)
   = [example_row 0 0, example_row 1 0] @ example_row 2 5 # [example_row 3 0]"
  by (simp add: query_addresses_def get_addresses_db_def no_constraints_def order_rows_def
      limit_rows_def example_manager_def example_ledger_def example_row_def example_key_def)

theorem get_max_gap_closed_runs_witness:
  "query_addresses (example_manager HierarchicalDeterministic)
     (example_ledger [example_row 3 0, example_row 2 5, example_row 0 0, example_row 1 0])
     (no_constraints\<lparr>order := Some N_asc\<rparr>)
   = [] @ [example_row 0 0, example_row 1 0] @ example_row 2 5 # [example_row 3 0] \<and>
   used_times (example_row 0 0) = 0 \<and> used_times (example_row 1 0) = 0 \<and>
   used_times (example_row 2 5) \<noteq> 0 \<and>
   2 \<le> HD_get_max_gap (example_manager HierarchicalDeterministic)
          (example_ledger [example_row 3 0, example_row 2 5, example_row 0 0, example_row 1 0])"
proof -
  let ?am = "example_manager HierarchicalDeterministic"
  let ?db = "example_ledger [example_row 3 0, example_row 2 5, example_row 0 0, example_row 1 0]"
  have q: "query_addresses ?am ?db (no_constraints\<lparr>order := Some N_asc\<rparr>)
           = [] @ [example_row 0 0, example_row 1 0] @ example_row 2 5 # [example_row 3 0]"
    using example_query_asc by simp
  have z: "\<forall>a \<in> set [example_row 0 0, example_row 1 0]. used_times a = 0"
    by (simp add: example_row_def)
  have u: "used_times (example_row 2 5) \<noteq> 0" by (simp add: example_row_def)
  from get_max_gap_closed_runs[OF refl, of ?am ?db] q z u
  have "int (length [example_row 0 0, example_row 1 0]) \<le> HD_get_max_gap ?am ?db"
    by blast
  with q u show ?thesis by (simp add: example_row_def)
qed

text \<open>
  C3 as the specification states it fails: on a chain of three addresses that were never
  used, the longest run of unused addresses has length 3 and \<^verbatim>\<open>get_max_gap\<close> returns 0.
\<close>

theorem get_max_gap_trailing_run_counterexample:
  "HD_get_max_gap (example_manager HierarchicalDeterministic)
     (example_ledger [example_row 2 0, example_row 0 0, example_row 1 0]) = 0 \<and>
   longest_unused_run
     (query_addresses (example_manager HierarchicalDeterministic)
        (example_ledger [example_row 2 0, example_row 0 0, example_row 1 0])
        (no_constraints\<lparr>order := Some N_asc\<rparr>)) = 3"
proof -
  have q: "query_addresses (example_manager HierarchicalDeterministic)
     (example_ledger [example_row 2 0, example_row 0 0, example_row 1 0])
     (no_constraints\<lparr>order := Some N_asc\<rparr>)
   = [example_row 0 0, example_row 1 0, example_row 2 0]"
    by (simp add: query_addresses_def get_addresses_db_def no_constraints_def order_rows_def
      limit_rows_def example_manager_def example_ledger_def example_row_def example_key_def)
  show ?thesis
    unfolding HD_get_max_gap_def q
    by (simp add: longest_unused_run_def example_row_def upt_rec)
qed

subsection \<open>\<^verbatim>\<open>ensure_address_gap\<close>\<close>

lemma existing_gap_loop_takeWhile:
  "existing_gap_loop addresses e = e + int (length (takeWhile (\<lambda>a. used_times a = 0) addresses))"
  by (induction addresses arbitrary: e) auto

lemma hd_sort_key_desc:
  assumes "xs \<noteq> []"
  shows "(f :: 'a \<Rightarrow> int) (hd (sort_key (\<lambda>r. - f r) xs)) = Max (f ` set xs)"
    (is "f (hd ?ys) = _")
proof -
  have ne: "?ys \<noteq> []" using assms by (metis length_0_conv length_sort)
  then obtain y ys where ys: "?ys = y # ys" by (cases ?ys) auto
  have s: "sorted (map (\<lambda>r. - f r) ?ys)" by (rule sorted_sort_key)
  have set_eq: "set ?ys = set xs" by simp
  have "\<forall>z \<in> set ys. - f y \<le> - f z" using s unfolding ys by simp
  then have "\<forall>z \<in> set (y # ys). f z \<le> f y" by auto
  then have le: "\<forall>z \<in> set xs. f z \<le> f y" using set_eq unfolding ys by metis
  have mem: "f y \<in> f ` set xs" using set_eq unfolding ys by auto
  have "Max (f ` set xs) = f y"
    by (rule Max_eqI) (use le mem in auto)
  then show ?thesis by (simp add: ys)
qed

lemma query_desc:
  "query_addresses am db (no_constraints\<lparr>limit := Some g, order := Some N_desc\<rparr>)
   = take (nat g) (sort_key (\<lambda>r. - pub_n (pubkey r)) (chain_rows am db))"
  by (simp add: query_addresses_def get_addresses_db_def no_constraints_def order_rows_def
      limit_rows_def chain_rows_def)

lemma HD_ensure_address_gap_nonneg:
  assumes "0 \<le> gap am"
  shows "let existing_gap = trailing_unused am db;
             start = next_index am db;
             indices = [start .. start + (gap am - existing_gap) - 1];
             keys = map (pub_child P (am_public_key am)) indices;
             new_keys = map (address_of P) keys
         in HD_ensure_address_gap P am db =
              (if existing_gap = gap am then (Inr [], db)
               else (Inr new_keys,
                     announce_addresses
                       (add_keys P db (am_account am) (chain_number am) keys)
                       (chain_number am) new_keys)) \<and>
            int (length indices) = gap am - existing_gap"
proof -
  let ?locked = "am\<lparr>address_generator_lock := True\<rparr>"
  let ?sorted = "sort_key (\<lambda>r. - pub_n (pubkey r)) (chain_rows am db)"
  let ?addresses = "take (nat (gap am)) ?sorted"
  have cr: "chain_rows ?locked db = chain_rows am db" by (simp add: chain_rows_def)
  have q: "query_addresses ?locked db
             (no_constraints\<lparr>limit := Some (gap am), order := Some N_desc\<rparr>) = ?addresses"
    by (simp add: query_desc cr)
  have eg: "existing_gap_loop ?addresses 0 = trailing_unused am db"
    by (simp add: existing_gap_loop_takeWhile trailing_unused_def)
  have le: "trailing_unused am db \<le> gap am"
  proof -
    have "length (takeWhile (\<lambda>a. used_times a = 0) ?addresses) \<le> length ?addresses"
      by (rule length_takeWhile_le)
    also have "\<dots> \<le> nat (gap am)" by simp
    finally show ?thesis using assms by (simp add: trailing_unused_def)
  qed
  have len: "int (length [next_index am db .. next_index am db + (gap am - trailing_unused am db) - 1])
       = gap am - trailing_unused am db"
    using le by simp
  have start: "(case ?addresses of [] \<Rightarrow> 0 | a # _ \<Rightarrow> pub_n (pubkey a) + 1) = next_index am db"
    if ne: "trailing_unused am db \<noteq> gap am"
  proof (cases "chain_rows am db = []")
    case True
    then show ?thesis by (simp add: next_index_def)
  next
    case False
    have pos: "0 < nat (gap am)"
    proof (rule ccontr)
      assume "\<not> 0 < nat (gap am)"
      then have "gap am = 0" using assms by simp
      then have "trailing_unused am db = 0" by (simp add: trailing_unused_def)
      with \<open>gap am = 0\<close> ne show False by simp
    qed
    have sne: "?sorted \<noteq> []" using False by (metis length_0_conv length_sort)
    then obtain y ys where ys: "?sorted = y # ys" by (cases ?sorted) auto
    from pos obtain k where k: "nat (gap am) = Suc k" by (cases "nat (gap am)") auto
    have "?addresses = y # take k ys" by (simp add: ys k)
    moreover have "pub_n (pubkey y) = Max ((\<lambda>r. pub_n (pubkey r)) ` set (chain_rows am db))"
      using hd_sort_key_desc[OF False, of "\<lambda>r. pub_n (pubkey r)"] by (simp add: ys)
    ultimately show ?thesis using False by (simp add: next_index_def)
  qed
  show ?thesis
  proof (cases "trailing_unused am db = gap am")
    case True
    then show ?thesis using len
      by (simp add: HD_ensure_address_gap_def q eg Let_def)
  next
    case False
    have "HD_ensure_address_gap P am db =
      (case generate_keys P ?locked db (next_index am db)
              (next_index am db + (gap am - trailing_unused am db) - 1) of
         (Inl e, db') \<Rightarrow> (Inl e, db')
       | (Inr new_keys, db') \<Rightarrow>
           (Inr new_keys, announce_addresses db' (chain_number am) new_keys))"
      using False start[OF False]
      by (simp add: HD_ensure_address_gap_def q eg Let_def)
    then show ?thesis using False len
      by (simp add: generate_keys_def py_range_def Let_def comp_def)
  qed
qed

text \<open>
  A negative \<^verbatim>\<open>gap\<close> reads no address and derives no key; the empty list is stored and
  announced.
\<close>

lemma HD_ensure_address_gap_negative:
  assumes "gap am < 0"
  shows "HD_ensure_address_gap P am db
           = (Inr [], announce_addresses
                        (add_keys P db (am_account am) (chain_number am) [])
                        (chain_number am) []) \<and>
         trailing_unused am db = 0"
proof -
  have n: "nat (gap am) = 0" using assms by simp
  have "query_addresses (am\<lparr>address_generator_lock := True\<rparr>) db
          (no_constraints\<lparr>limit := Some (gap am), order := Some N_desc\<rparr>) = []"
    by (simp add: query_desc n)
  moreover have "[0 .. gap am - 1] = []" using assms by simp
  ultimately show ?thesis using assms
    by (simp add: HD_ensure_address_gap_def generate_keys_def py_range_def Let_def
        trailing_unused_def n)
qed

text \<open>
  C4. \<^verbatim>\<open>ensure_address_gap\<close> of an HD chain with \<^verbatim>\<open>gap\<close> \<open>g\<close> counts the unused
  addresses at the head of the last \<open>g\<close> addresses in descending index order. If the count
  is \<open>g\<close> it returns the empty list and leaves the ledger as it is. Otherwise it derives
  the children with the contiguous indices that start after the largest index of the
  chain (at 0 for an empty chain), \<open>g\<close> minus the count of them, stores them, announces
  their addresses and returns them. (A negative \<open>g\<close> leaves no index to derive.)
\<close>

theorem ensure_address_gap_fills_gap:
  "let existing_gap = trailing_unused am db;
       start = next_index am db;
       indices = [start .. start + (gap am - existing_gap) - 1];
       keys = map (pub_child P (am_public_key am)) indices;
       new_keys = map (address_of P) keys
   in HD_ensure_address_gap P am db =
        (if existing_gap = gap am then (Inr [], db)
         else (Inr new_keys,
               announce_addresses
                 (add_keys P db (am_account am) (chain_number am) keys)
                 (chain_number am) new_keys)) \<and>
      (0 \<le> gap am \<longrightarrow> int (length indices) = gap am - existing_gap) \<and>
      (gap am < 0 \<longrightarrow> indices = [])"
proof (cases "0 \<le> gap am")
  case True
  with HD_ensure_address_gap_nonneg[OF True, of db P] show ?thesis
    by (simp add: Let_def)
next
  case False
  then have neg: "gap am < 0" by simp
  from HD_ensure_address_gap_negative[OF neg, of P db] neg show ?thesis
    by (simp add: Let_def)
qed


lemma example_chain_rows:
  "chain_rows (example_manager HierarchicalDeterministic)
     (example_ledger [example_row 0 1, example_row 1 0]) = [example_row 0 1, example_row 1 0]"
  by (simp add: chain_rows_def example_manager_def example_ledger_def example_row_def)

lemma example_trailing_unused:
  "trailing_unused (example_manager HierarchicalDeterministic)
     (example_ledger [example_row 0 1, example_row 1 0]) = 1"
  unfolding trailing_unused_def example_chain_rows
  by (simp add: example_manager_def example_row_def example_key_def)

lemma example_next_index:
  "next_index (example_manager HierarchicalDeterministic)
     (example_ledger [example_row 0 1, example_row 1 0]) = 2"
  unfolding next_index_def example_chain_rows
  by (simp add: example_row_def example_key_def)

theorem ensure_address_gap_fills_gap_witness:
  "0 \<le> gap (example_manager HierarchicalDeterministic) \<and>
   HD_ensure_address_gap toy_prims (example_manager HierarchicalDeterministic)
     (example_ledger [example_row 0 1, example_row 1 0]) =
   (Inr [''S+II'', ''S+III''],
    \<lparr>rows = [example_row 0 1, example_row 1 0, example_row 2 0, example_row 3 0],
     announced = [(0, [''S+II'', ''S+III''])]\<rparr>)"
proof -
  have g: "0 \<le> gap (example_manager HierarchicalDeterministic)"
    by (simp add: example_manager_def)
  have i: "[2 .. 2 + (3 - 1) - 1] = [2, 3::int]" by (simp add: upto_rec1)
  show ?thesis
    using ensure_address_gap_fills_gap[where P = toy_prims
        and am = "example_manager HierarchicalDeterministic"
        and db = "example_ledger [example_row 0 1, example_row 1 0]"] g
    unfolding Let_def example_trailing_unused example_next_index
    by (simp add: i example_manager_def toy_prims_def add_keys_def announce_addresses_def
        example_ledger_def example_row_def example_key_def toy_index_def eval_nat_numeral)
qed

subsection \<open>\<^verbatim>\<open>get_or_create_usable_address\<close> of the single-address manager\<close>

lemma query_limit:
  "query_addresses am db (no_constraints\<lparr>limit := Some g\<rparr>) = take (nat g) (chain_rows am db)"
  by (simp add: query_addresses_def get_addresses_db_def no_constraints_def order_rows_def
      limit_rows_def chain_rows_def)

text \<open>
  C10. For a single-address manager whose chain holds exactly one address,
  \<^verbatim>\<open>get_or_create_usable_address\<close> returns that address and leaves the ledger as it is,
  whatever the \<^verbatim>\<open>used_times\<close> of the address and whatever the random draw:
  \<^verbatim>\<open>SingleKey.get_address_records\<close> drops \<^verbatim>\<open>only_usable\<close>.
\<close>

theorem single_key_usable_address:
  assumes "kind am = SingleKey" and "chain_rows am db = [r]"
  shows "get_or_create_usable_address P am db rnd = (Inr (address r), db)"
proof -
  have "get_addresses am db True (no_constraints\<lparr>limit := Some 10\<rparr>) = [address r]"
    using assms
    by (simp add: get_addresses_def get_address_records_def SingleKey_get_address_records_def
        query_limit)
  then show ?thesis
    by (simp add: get_or_create_usable_address_def random_choice_def)
qed

theorem single_key_usable_address_witness:
  "kind (example_manager SingleKey) = SingleKey \<and>
   chain_rows (example_manager SingleKey) (example_ledger [example_row 0 7]) = [example_row 0 7] \<and>
   used_times (example_row 0 7) = 7 \<and>
   maximum_uses_per_address (example_manager SingleKey) = 1 \<and>
   get_or_create_usable_address toy_prims (example_manager SingleKey)
     (example_ledger [example_row 0 7]) 5 = (Inr ''S+'', example_ledger [example_row 0 7])"
proof -
  have k: "kind (example_manager SingleKey) = SingleKey" by (simp add: example_manager_def)
  have c: "chain_rows (example_manager SingleKey) (example_ledger [example_row 0 7])
             = [example_row 0 7]"
    by (simp add: chain_rows_def example_manager_def example_ledger_def example_row_def)
  from single_key_usable_address[OF k c, of toy_prims 5] k c show ?thesis
    by (simp add: example_row_def example_manager_def toy_index_def)
qed

text \<open>
  On the same ledger the HD manager of the chain does enforce the limit: the address was
  used seven times, so it derives new keys instead of returning it.
\<close>

lemma hd_usable_address_example:
  "get_or_create_usable_address toy_prims (example_manager HierarchicalDeterministic)
     (example_ledger [example_row 0 7]) 5 =
   (Inr ''S+I'',
    \<lparr>rows = [example_row 0 7, example_row 1 0, example_row 2 0, example_row 3 0],
     announced = [(0, [''S+I'', ''S+II'', ''S+III''])]\<rparr>)"
  by (simp add: get_or_create_usable_address_def get_addresses_def get_address_records_def
      HD_get_address_records_def query_addresses_def get_addresses_db_def no_constraints_def
      order_rows_def limit_rows_def ensure_address_gap_def HD_ensure_address_gap_def
      generate_keys_def py_range_def add_keys_def announce_addresses_def Let_def
      example_manager_def example_ledger_def example_row_def example_key_def toy_prims_def
      toy_index_def upto_rec1 eval_nat_numeral)

section \<open>Properties of the claimtrie model\<close>

text \<open>
  C5. A claim that enters at height \<open>h_c\<close> on a name whose controlling claim exists since
  height \<open>h_ctrl\<close> gets the activation height \<open>h_c + min(floor((h_c - h_ctrl) / 32), 4032)\<close>,
  the quotient taken in the rationals and rounded down; a claim that enters a name without a
  controlling claim gets the activation height \<open>h_c\<close>.
\<close>

theorem activation_height_delay:
  "activation_height h_c (Some h_ctrl)
     = h_c + min \<lfloor>real_of_int (h_c - h_ctrl) / 32\<rfloor> 4032 \<and>
   activation_height h_c None = h_c"
proof -
  have "\<lfloor>real_of_int (h_c - h_ctrl) / real_of_int 32\<rfloor> = (h_c - h_ctrl) div 32"
    by (rule floor_divide_of_int_eq)
  then show ?thesis by (simp add: activation_height_def)
qed

text \<open>The model gives the activation heights that the tests assert.\<close>

lemma activation_height_test_example:
  "map (\<lambda>(h_c, controlling, activation). activation_height h_c controlling) test_example_from_spec
   = map (\<lambda>(h_c, controlling, activation). activation) test_example_from_spec"
  by (simp add: test_example_from_spec_def activation_height_def)

lemma activation_height_test_competing:
  "activation_height 114 (Some 113) = 114 \<and> activation_height 115 (Some 113) = 115 \<and>
   activation_height 120 (Some 110) = 120"
  by (simp add: activation_height_def)

text \<open>
  The activation height that \<^verbatim>\<open>test_lbrycrd_database_queries\<close> asserts for the two
  supports of block 352 is the one of the model.
\<close>

lemma support_metadata_test_activation:
  "map (\<lambda>(name, activation, expiration). activation) test_support_metadata
   = replicate 2 (activation_height 352 (Some 102))"
  by (simp add: test_support_metadata_def activation_height_def eval_nat_numeral)

text \<open>
  \<^verbatim>\<open>test_winning_claim_expires_and_another_takes_over\<close> creates claim A in block 110
  and claim B in block 120 and asserts that \<^verbatim>\<open>get_active\<close> lists no claim at height
  620, where no claim is controlling. If both claims expire \<open>T\<close> blocks after their
  creation, the filter gives the empty list exactly for \<open>T \<le> 500\<close>; for
  \<open>T = 2102400\<close> it lists both claims.
\<close>

lemma expiration_test_bound:
  "get_active None 620 [(''Claim A'', 110, 110 + T), (''Claim B'', 120, 120 + T)] = []
   \<longleftrightarrow> T \<le> 500"
  by (auto simp: get_active_def)

lemma expiration_test_spec_constant:
  "get_active None 620 [(''Claim A'', 110, 110 + 2102400), (''Claim B'', 120, 120 + 2102400)]
   = [(''Claim A'', 110), (''Claim B'', 120)]"
  by (simp add: get_active_def)

section \<open>Properties of the signature model\<close>

lemma signature_valid_of_published:
  "signature_valid_of (indexed_claims (apply_op idx (Publish_claim i channel signature))) i
   = Some (check_signature idx channel signature)"
proof -
  have "filter (\<lambda>t. txo_id t = i) (filter (\<lambda>t. txo_id t \<noteq> i) (indexed_claims idx)) = []"
    by (induction "indexed_claims idx") (auto simp: filter_empty_conv)
  then show ?thesis
    by (simp add: signature_valid_of_def index_txo_def)
qed

text \<open>
  C7. When a channel publishes a new key, the claims and supports already indexed keep
  their entries, and with them their \<^verbatim>\<open>is_signature_valid\<close>. A claim updated after the
  reset and signed with another key than the one the channel has published is indexed as
  invalid. A claim signed with the key the channel has published last is indexed as valid,
  also when that key is one the channel had before.
\<close>

theorem channel_key_reset_signatures:
  "indexed_claims (apply_op idx (Publish_channel c k')) = indexed_claims idx \<and>
   indexed_supports (apply_op idx (Publish_channel c k')) = indexed_supports idx \<and>
   (k \<noteq> k' \<longrightarrow>
      signature_valid_of
        (indexed_claims
           (apply_op (apply_op idx (Publish_channel c k')) (Publish_claim i (Some c) (Some k)))) i
      = Some False) \<and>
   signature_valid_of
     (indexed_claims
        (apply_op (apply_op idx (Publish_channel c k)) (Publish_claim i (Some c) (Some k)))) i
   = Some True"
proof -
  have kept: "indexed_claims (apply_op idx (Publish_channel c k')) = indexed_claims idx \<and>
      indexed_supports (apply_op idx (Publish_channel c k')) = indexed_supports idx"
    by simp
  have published: "signature_valid_of
      (indexed_claims
         (apply_op (apply_op idx (Publish_channel c key)) (Publish_claim i (Some c) (Some k)))) i
      = Some (key = k)" for key
    unfolding signature_valid_of_published by (simp add: check_signature_def)
  from kept published[of k'] published[of k] show ?thesis by auto
qed

theorem channel_key_reset_signatures_witness:
  "(3::nat) \<noteq> 2 \<and>
   signature_valid_of
     (indexed_claims
        (apply_op (apply_op (apply_ops empty_index (concat (take 3 signing_test_blocks)))
                     (Publish_channel ''channel'' 2))
           (Publish_claim ''stream2'' (Some ''channel'') (Some 3)))) ''stream2''
   = Some False"
  using channel_key_reset_signatures[of
      "apply_ops empty_index (concat (take 3 signing_test_blocks))" "''channel''" 2 3 "''stream2''"]
  by simp

text \<open>The model goes through the states that \<^verbatim>\<open>test_claim_and_support_signing\<close> asserts.\<close>

lemma signing_test_states:
  "map (\<lambda>n. signing_state (apply_ops empty_index (concat (take n signing_test_blocks))))
     [1, 3, 4, 5, 6, 7, 8]
   = [(0, 0, Some False, None, None),
      (2, 1, Some True, Some True, Some True),
      (2, 1, Some True, Some True, Some True),
      (1, 1, Some True, Some False, Some True),
      (2, 1, Some True, Some True, Some True),
      (1, 1, Some True, Some True, Some True),
      (1, 0, Some True, None, None)]"
  by (simp add: signing_state_def signing_test_blocks_def apply_ops_def empty_index_def
      signed_count_def signature_valid_of_def index_txo_def check_signature_def
      eval_nat_numeral)

lemma signing_test_second_channel:
  "signed_count (indexed_claims (apply_ops empty_index (concat (take 7 signing_test_blocks))))
     ''channel2'' = 1 \<and>
   signed_count (indexed_claims (apply_ops empty_index (concat (take 8 signing_test_blocks))))
     ''channel2'' = 0"
  by (simp add: signing_test_blocks_def apply_ops_def empty_index_def
      signed_count_def index_txo_def check_signature_def eval_nat_numeral)

section \<open>Properties of the account\<close>

lemma get_init_vector_stored:
  assumes "get_init_vector a key r = (iv, a', r')"
  shows "a' = a\<lparr>init_vectors := (init_vectors a)(key \<mapsto> iv)\<rparr>"
  using assms
  by (auto simp: get_init_vector_def os_urandom_def fun_upd_idem split: option.splits)

lemma get_init_vector_known:
  assumes "init_vectors a key = Some iv"
  shows "get_init_vector a key r = (iv, a, r)"
  using assms by (simp add: get_init_vector_def)

text \<open>
  C8. Two calls of \<^verbatim>\<open>to_dict\<close> in a row on the same account, with the same
  \<^verbatim>\<open>encrypt_password\<close>, return the same dictionary: the second call finds the vectors
  that the first one stored, so it reads no randomness and leaves the account as it is.
\<close>

theorem to_dict_repeatable:
  assumes "to_dict P a encrypt_password include_channel_keys r = (d1, a1, r1)"
    and "to_dict P a1 encrypt_password include_channel_keys r1 = (d2, a2, r2)"
  shows "d2 = d1 \<and> a2 = a1 \<and> r2 = r1"
proof (cases "\<not> encrypted a \<and> truthy encrypt_password")
  case False
  then have "to_dict P a encrypt_password include_channel_keys r
      = (fst (to_dict P a encrypt_password include_channel_keys r), a, r)"
    by (auto simp: to_dict_def split: option.splits)
  with assms(1) have a1: "a1 = a" "r1 = r" by auto
  with assms show ?thesis by simp
next
  case True
  let ?pks = "case private_key a of Some k \<Rightarrow> extended_key_string P k
                | None \<Rightarrow> private_key_string a"
  obtain iv1 b1 s1 where g1: "get_init_vector a ''private_key'' r = (iv1, b1, s1)"
    by (cases "get_init_vector a ''private_key'' r") auto
  have b1: "b1 = a\<lparr>init_vectors := (init_vectors a)(''private_key'' \<mapsto> iv1)\<rparr>"
    by (rule get_init_vector_stored[OF g1])
  show ?thesis
  proof (cases "?pks = []")
    case pe: True
    show ?thesis
    proof (cases "seed a = []")
      case True
      with pe \<open>\<not> encrypted a \<and> truthy encrypt_password\<close> assms show ?thesis
        by (auto simp: to_dict_def split: option.splits)
    next
      case False
      obtain iv2 b2 s2 where g2: "get_init_vector a ''seed'' r = (iv2, b2, s2)"
        by (cases "get_init_vector a ''seed'' r") auto
      have b2: "b2 = a\<lparr>init_vectors := (init_vectors a)(''seed'' \<mapsto> iv2)\<rparr>"
        by (rule get_init_vector_stored[OF g2])
      have first: "a1 = b2" "r1 = s2"
        using assms(1) pe False True g2 by (auto simp: to_dict_def split: option.splits)
      have again: "get_init_vector b2 ''seed'' s2 = (iv2, b2, s2)"
        by (rule get_init_vector_known) (simp add: b2)
      show ?thesis
        using assms pe False True g2 again first
        by (auto simp: to_dict_def b2 split: option.splits)
    qed
  next
    case pn: False
    have again1: "get_init_vector b1 ''private_key'' s = (iv1, b1, s)" for s
      by (rule get_init_vector_known) (simp add: b1)
    show ?thesis
    proof (cases "seed a = []")
      case True
      have first: "a1 = b1" "r1 = s1"
        using assms(1) pn \<open>\<not> encrypted a \<and> truthy encrypt_password\<close> True g1
        by (auto simp: to_dict_def split: option.splits)
      show ?thesis
        using assms pn True \<open>\<not> encrypted a \<and> truthy encrypt_password\<close> g1 again1 first
        by (auto simp: to_dict_def b1 split: option.splits)
    next
      case False
      obtain iv2 b2 s2 where g2: "get_init_vector b1 ''seed'' s1 = (iv2, b2, s2)"
        by (cases "get_init_vector b1 ''seed'' s1") auto
      have b2: "b2 = b1\<lparr>init_vectors := (init_vectors b1)(''seed'' \<mapsto> iv2)\<rparr>"
        by (rule get_init_vector_stored[OF g2])
      have first: "a1 = b2" "r1 = s2"
        using assms(1) pn \<open>\<not> encrypted a \<and> truthy encrypt_password\<close> False g1 g2
        by (auto simp: to_dict_def split: option.splits)
      have again_pk: "get_init_vector b2 ''private_key'' s = (iv1, b2, s)" for s
        by (rule get_init_vector_known) (simp add: b2 b1)
      have again_seed: "get_init_vector b2 ''seed'' s = (iv2, b2, s)" for s
        by (rule get_init_vector_known) (simp add: b2)
      show ?thesis
        using assms pn False \<open>\<not> encrypted a \<and> truthy encrypt_password\<close> g1 g2 again_pk again_seed first
        by (auto simp: to_dict_def b1 b2 split: option.splits)
    qed
  qed
qed


lemma example_to_dict:
  "to_dict toy_prims example_account (Some ''pw12'') True example_urandom =
   (\<lparr>d_ledger = ''lbc_regtest'', d_name = ''example'',
     d_seed = ''rrrrrrrrrrrrrrrr0pw12abandon ability'', d_encrypted = True,
     d_private_key = ''rrrrrrrrrrrrrrrr0pw12xprvS'', d_public_key = ''xpubS'',
     d_address_generator =
       \<lparr>g_name = ''deterministic-chain'', g_receiving = Some (3, 1), g_change = Some (3, 1)\<rparr>,
     d_modified_on = 0, d_certificates = Some []\<rparr>,
    example_account\<lparr>init_vectors :=
      [''private_key'' \<mapsto> ''rrrrrrrrrrrrrrrr'', ''seed'' \<mapsto> ''rrrrrrrrrrrrrrrr'']\<rparr>,
    example_urandom)"
  by (simp add: to_dict_def get_init_vector_def os_urandom_def truthy_def example_account_def
      example_private_key_def example_manager_def example_urandom_def toy_prims_def
      toy_aes_encrypt_def toy_mark_def generator_to_dict_def generator_name_def
      to_dict_instance_def upt_rec fun_upd_twist)

theorem to_dict_repeatable_witness:
  "d_seed (fst (to_dict toy_prims example_account (Some ''pw12'') True example_urandom))
     = ''rrrrrrrrrrrrrrrr0pw12abandon ability'' \<and>
   fst (to_dict toy_prims
          (example_account\<lparr>init_vectors :=
             [''private_key'' \<mapsto> ''rrrrrrrrrrrrrrrr'', ''seed'' \<mapsto> ''rrrrrrrrrrrrrrrr'']\<rparr>)
          (Some ''pw12'') True example_urandom)
     = fst (to_dict toy_prims example_account (Some ''pw12'') True example_urandom)"
proof -
  obtain d2 a2 r2 where second:
    "to_dict toy_prims
       (example_account\<lparr>init_vectors :=
          [''private_key'' \<mapsto> ''rrrrrrrrrrrrrrrr'', ''seed'' \<mapsto> ''rrrrrrrrrrrrrrrr'']\<rparr>)
       (Some ''pw12'') True example_urandom = (d2, a2, r2)"
    by (metis prod.collapse)
  from to_dict_repeatable[OF example_to_dict second] show ?thesis
    by (simp add: example_to_dict second)
qed

subsection \<open>\<^verbatim>\<open>decrypt\<close>\<close>

lemma decrypt_seed_frame:
  assumes "decrypt_seed P a password = (res, a')"
  shows "seed a' = seed a \<and> private_key a' = private_key a \<and>
         private_key_string a' = private_key_string a \<and> encrypted a' = encrypted a \<and>
         (\<forall>key. key \<noteq> ''seed'' \<longrightarrow> init_vectors a' key = init_vectors a key) \<and>
         (init_vectors a' ''seed'' = init_vectors a ''seed'' \<or>
          (\<exists>s iv. aes_decrypt P password (seed a) = Inr (s, iv) \<and>
                  init_vectors a' ''seed'' = Some iv))"
  using assms
  by (auto simp: decrypt_seed_def Let_def split: if_splits sum.splits prod.splits)

lemma decrypt_private_key_string_frame:
  assumes "decrypt_private_key_string P a password = (res, a')"
  shows "seed a' = seed a \<and> private_key a' = private_key a \<and>
         private_key_string a' = private_key_string a \<and> encrypted a' = encrypted a \<and>
         (\<forall>key. key \<noteq> ''private_key'' \<longrightarrow> init_vectors a' key = init_vectors a key) \<and>
         (init_vectors a' ''private_key'' = init_vectors a ''private_key'' \<or>
          (\<exists>s iv. aes_decrypt P password (private_key_string a) = Inr (s, iv) \<and>
                  init_vectors a' ''private_key'' = Some iv))"
  using assms
  by (auto simp: decrypt_private_key_string_def Let_def split: if_splits sum.splits prod.splits)

text \<open>
  Whenever \<^verbatim>\<open>decrypt\<close> does not return \<^verbatim>\<open>True\<close>, the seed, the private key, the
  private key string and the flag \<^verbatim>\<open>encrypted\<close> are as before, and it has not raised
  \<^verbatim>\<open>ValueError\<close> or \<^verbatim>\<open>InvalidPasswordError\<close>.
\<close>

lemma decrypt_not_true_frame:
  assumes "decrypt P a password = (res, a')" and "res \<noteq> Inr True"
  shows "res \<noteq> Inl ValueError \<and> res \<noteq> Inl InvalidPasswordError \<and>
         seed a' = seed a \<and> private_key a' = private_key a \<and>
         private_key_string a' = private_key_string a \<and> encrypted a' = encrypted a \<and>
         (\<forall>key. key \<noteq> ''seed'' \<and> key \<noteq> ''private_key'' \<longrightarrow>
                init_vectors a' key = init_vectors a key) \<and>
         (init_vectors a' ''seed'' = init_vectors a ''seed'' \<or>
          (\<exists>s iv. aes_decrypt P password (seed a) = Inr (s, iv) \<and>
                  init_vectors a' ''seed'' = Some iv)) \<and>
         (init_vectors a' ''private_key'' = init_vectors a ''private_key'' \<or>
          (\<exists>s iv. aes_decrypt P password (private_key_string a) = Inr (s, iv) \<and>
                  init_vectors a' ''private_key'' = Some iv))"
proof (cases "encrypted a")
  case False
  with assms show ?thesis by (auto simp: decrypt_def)
next
  case True
  obtain rs a1 where ds: "decrypt_seed P a password = (rs, a1)"
    by (cases "decrypt_seed P a password") auto
  note f1 = decrypt_seed_frame[OF ds]
  show ?thesis
  proof (cases rs)
    case (Inl e)
    with assms True ds have "a' = a1" and "res = (if e = ValueError \<or> e = InvalidPasswordError then Inr False else Inl e)"
      by (auto simp: decrypt_def split: if_splits)
    with f1 show ?thesis by (auto split: if_splits)
  next
    case (Inr s)
    obtain rk a2 where dk: "decrypt_private_key_string P a1 password = (rk, a2)"
      by (cases "decrypt_private_key_string P a1 password") auto
    note f2 = decrypt_private_key_string_frame[OF dk]
    show ?thesis
    proof (cases rk)
      case (Inl e)
      with assms True ds dk Inr have "a' = a2"
        and "res = (if e = TypeError \<or> e = ValueError \<or> e = InvalidPasswordError then Inr False else Inl e)"
        by (auto simp: decrypt_def split: if_splits)
      moreover have "private_key_string a1 = private_key_string a" "seed a1 = seed a"
        using f1 by auto
      ultimately show ?thesis using f1 f2 by (auto split: if_splits)
    next
      case (Inr k)
      with assms True ds dk \<open>rs = Inr s\<close> have False by (auto simp: decrypt_def)
      then show ?thesis ..
    qed
  qed
qed

lemma decrypt_seed_result:
  "fst (decrypt_seed P a password) =
     (if seed a = [] then Inr []
      else case aes_decrypt P password (seed a) of
             Inl e \<Rightarrow> Inl e
           | Inr (s, iv) \<Rightarrow>
               if s = [] then Inr []
               else case mnemonic_decode P s of
                      Inl e \<Rightarrow> Inl (if e = IndexError then ValueError else e)
                    | Inr m \<Rightarrow> Inr s)"
  by (auto simp: decrypt_seed_def Let_def split: sum.splits prod.splits)

lemma decrypt_seed_vectors:
  "init_vectors (snd (decrypt_seed P a password)) =
     (case vector_read P password (seed a) of
        Some iv \<Rightarrow> (init_vectors a)(''seed'' \<mapsto> iv)
      | None \<Rightarrow> init_vectors a)"
  by (auto simp: decrypt_seed_def vector_read_def Let_def split: sum.splits prod.splits)

lemma decrypt_private_key_string_vectors:
  "init_vectors (snd (decrypt_private_key_string P a password)) =
     (case vector_read P password (private_key_string a) of
        Some iv \<Rightarrow> (init_vectors a)(''private_key'' \<mapsto> iv)
      | None \<Rightarrow> init_vectors a)"
  by (auto simp: decrypt_private_key_string_def vector_read_def Let_def
      split: sum.splits prod.splits)

lemma seed_validated_iff:
  "seed_validated P a password \<longleftrightarrow> (\<exists>s. fst (decrypt_seed P a password) = Inr s)"
  by (auto simp: decrypt_seed_result seed_validated_def split: sum.splits prod.splits)

text \<open>
  The vectors that \<^verbatim>\<open>decrypt\<close> leaves in an encrypted account, whatever it returns.
\<close>

lemma decrypt_vectors:
  assumes "encrypted a"
  shows "init_vectors (snd (decrypt P a password)) =
     (\<lambda>field.
        if field = ''seed'' then
          (case vector_read P password (seed a) of
             Some iv \<Rightarrow> Some iv | None \<Rightarrow> init_vectors a ''seed'')
        else if field = ''private_key'' \<and> seed_validated P a password then
          (case vector_read P password (private_key_string a) of
             Some iv \<Rightarrow> Some iv | None \<Rightarrow> init_vectors a ''private_key'')
        else init_vectors a field)"
proof -
  obtain rs a1 where ds: "decrypt_seed P a password = (rs, a1)"
    by (metis prod.collapse)
  have v1: "init_vectors a1 =
     (case vector_read P password (seed a) of
        Some iv \<Rightarrow> (init_vectors a)(''seed'' \<mapsto> iv) | None \<Rightarrow> init_vectors a)"
    using decrypt_seed_vectors[of P a password] ds by simp
  have f1: "private_key_string a1 = private_key_string a"
    using decrypt_seed_frame[OF ds] by simp
  show ?thesis
  proof (cases rs)
    case (Inl e)
    then have nv: "\<not> seed_validated P a password"
      using ds by (simp add: seed_validated_iff)
    have "snd (decrypt P a password) = a1"
      using assms ds Inl by (simp add: decrypt_def)
    then show ?thesis using v1 nv by (auto split: option.splits)
  next
    case (Inr s)
    then have sv: "seed_validated P a password"
      using ds by (simp add: seed_validated_iff)
    obtain rk a2 where dk: "decrypt_private_key_string P a1 password = (rk, a2)"
      by (metis prod.collapse)
    have v2: "init_vectors a2 =
       (case vector_read P password (private_key_string a) of
          Some iv \<Rightarrow> (init_vectors a1)(''private_key'' \<mapsto> iv) | None \<Rightarrow> init_vectors a1)"
      using decrypt_private_key_string_vectors[of P a1 password] dk f1 by simp
    have "init_vectors (snd (decrypt P a password)) = init_vectors a2"
      using assms ds dk Inr by (cases rk) (simp_all add: decrypt_def)
    then show ?thesis using v1 v2 sv by (auto split: option.splits)
  qed
qed

lemma decrypt_fails_result:
  assumes "encrypted a" and "decrypt_fails P a password"
  shows "fst (decrypt P a password) = Inr False"
proof -
  obtain rs a1 where ds: "decrypt_seed P a password = (rs, a1)"
    by (metis prod.collapse)
  have rs: "rs = fst (decrypt_seed P a password)" using ds by simp
  have f1: "private_key_string a1 = private_key_string a"
    using decrypt_seed_frame[OF ds] by simp
  from assms(2) consider
      (seed_padding) "seed a \<noteq> []" "aes_decrypt P password (seed a) = Inl InvalidPasswordError"
    | (mnemonic) "seed_not_mnemonic P a password"
    | (key_padding) "seed_validated P a password" "private_key_string a \<noteq> []"
        "aes_decrypt P password (private_key_string a) = Inl InvalidPasswordError"
    | (key) "undecodable_key P a password"
    unfolding decrypt_fails_def invalid_padding_def by blast
  then show ?thesis
  proof cases
    case seed_padding
    then have "rs = Inl InvalidPasswordError" by (simp add: rs decrypt_seed_result)
    then show ?thesis using assms(1) ds by (simp add: decrypt_def)
  next
    case mnemonic
    then have "rs = Inl ValueError"
      by (auto simp: rs decrypt_seed_result seed_not_mnemonic_def split: sum.splits prod.splits)
    then show ?thesis using assms(1) ds by (simp add: decrypt_def)
  next
    case key_padding
    from key_padding(1) obtain s where s: "rs = Inr s"
      by (auto simp: seed_validated_iff rs)
    have "fst (decrypt_private_key_string P a1 password) = Inl InvalidPasswordError"
      using key_padding(2,3) f1 by (simp add: decrypt_private_key_string_def)
    then show ?thesis using assms(1) ds s
      by (cases "decrypt_private_key_string P a1 password") (auto simp: decrypt_def)
  next
    case key
    then obtain s where s: "rs = Inr s"
      by (auto simp: seed_validated_iff rs undecodable_key_def)
    have "fst (decrypt_private_key_string P a1 password) = Inl TypeError \<or>
          fst (decrypt_private_key_string P a1 password) = Inl ValueError"
      using key f1
      by (auto simp: decrypt_private_key_string_def undecodable_key_def Let_def
          split: sum.splits prod.splits)
    then show ?thesis using assms(1) ds s
      by (cases "decrypt_private_key_string P a1 password") (auto simp: decrypt_def)
  qed
qed

text \<open>
  C1, as amended. When \<^verbatim>\<open>decrypt\<close> of an encrypted account fails (invalid padding, a
  decrypted seed that is no mnemonic, or an undecodable extended key), it returns
  \<^verbatim>\<open>False\<close>, and the seed, the private key, the private key string and the flag
  \<^verbatim>\<open>encrypted\<close> are as before. The vectors are not: the vector of the seed is the one
  \<^verbatim>\<open>aes_decrypt\<close> returned for the seed, when it returned one, and as before otherwise;
  the vector of the private key is the one \<^verbatim>\<open>aes_decrypt\<close> returned for the private key
  string, when the seed was validated and the call returned one, and as before otherwise;
  the vectors of all other fields are as before.
\<close>

theorem decrypt_failure_keeps_keys:
  assumes "encrypted a"
    and "decrypt_fails P a password"
    and "decrypt P a password = (res, a')"
  shows "res = Inr False \<and>
         seed a' = seed a \<and> private_key a' = private_key a \<and>
         private_key_string a' = private_key_string a \<and> encrypted a' \<and>
         init_vectors a' ''seed'' =
           (case vector_read P password (seed a) of
              Some iv \<Rightarrow> Some iv | None \<Rightarrow> init_vectors a ''seed'') \<and>
         init_vectors a' ''private_key'' =
           (if seed_validated P a password
            then (case vector_read P password (private_key_string a) of
                    Some iv \<Rightarrow> Some iv | None \<Rightarrow> init_vectors a ''private_key'')
            else init_vectors a ''private_key'') \<and>
         (\<forall>field. field \<noteq> ''seed'' \<and> field \<noteq> ''private_key'' \<longrightarrow>
                  init_vectors a' field = init_vectors a field)"
proof -
  have res: "res = Inr False"
    using decrypt_fails_result[OF assms(1,2)] assms(3) by simp
  then have nt: "res \<noteq> Inr True" by simp
  have frame: "seed a' = seed a \<and> private_key a' = private_key a \<and>
      private_key_string a' = private_key_string a \<and> encrypted a' = encrypted a"
    using decrypt_not_true_frame[OF assms(3) nt] by blast
  have v: "init_vectors a' =
     (\<lambda>field.
        if field = ''seed'' then
          (case vector_read P password (seed a) of
             Some iv \<Rightarrow> Some iv | None \<Rightarrow> init_vectors a ''seed'')
        else if field = ''private_key'' \<and> seed_validated P a password then
          (case vector_read P password (private_key_string a) of
             Some iv \<Rightarrow> Some iv | None \<Rightarrow> init_vectors a ''private_key'')
        else init_vectors a field)"
    using decrypt_vectors[OF assms(1), of P password] assms(3) by simp
  have v1: "init_vectors a' ''seed'' =
           (case vector_read P password (seed a) of
              Some iv \<Rightarrow> Some iv | None \<Rightarrow> init_vectors a ''seed'')"
    by (simp add: v)
  have v2: "init_vectors a' ''private_key'' =
           (if seed_validated P a password
            then (case vector_read P password (private_key_string a) of
                    Some iv \<Rightarrow> Some iv | None \<Rightarrow> init_vectors a ''private_key'')
            else init_vectors a ''private_key'')"
    by (simp add: v)
  have v3: "\<forall>field. field \<noteq> ''seed'' \<and> field \<noteq> ''private_key'' \<longrightarrow>
                  init_vectors a' field = init_vectors a field"
    by (simp add: v)
  from res frame assms(1) v1 v2 v3 show ?thesis by simp
qed

lemma example_decrypt_valid_padding:
  "decrypt toy_prims example_encrypted_account ''zz'' =
   (Inr False,
    example_encrypted_account\<lparr>init_vectors := [''seed'' \<mapsto> ''0123456789abcdef'']\<rparr>)"
  by (simp add: decrypt_def decrypt_seed_def example_encrypted_account_def example_account_def
      toy_prims_def toy_aes_encrypt_def toy_aes_decrypt_def toy_mark_def toy_mnemonic_decode_def)

lemma example_decrypt_fails:
  "decrypt_fails toy_prims example_encrypted_account ''zz'' \<and>
   seed_not_mnemonic toy_prims example_encrypted_account ''zz'' \<and>
   vector_read toy_prims ''zz'' (seed example_encrypted_account) = Some ''0123456789abcdef''"
  by (simp add: decrypt_fails_def seed_not_mnemonic_def vector_read_def
      example_encrypted_account_def example_account_def toy_prims_def toy_aes_encrypt_def
      toy_aes_decrypt_def toy_mark_def toy_mnemonic_decode_def)

theorem decrypt_failure_keeps_keys_witness:
  "encrypted example_encrypted_account \<and>
   decrypt_fails toy_prims example_encrypted_account ''zz'' \<and>
   fst (decrypt toy_prims example_encrypted_account ''zz'') = Inr False \<and>
   seed (snd (decrypt toy_prims example_encrypted_account ''zz''))
     = seed example_encrypted_account \<and>
   private_key (snd (decrypt toy_prims example_encrypted_account ''zz'')) = None \<and>
   encrypted (snd (decrypt toy_prims example_encrypted_account ''zz'')) \<and>
   init_vectors (snd (decrypt toy_prims example_encrypted_account ''zz'')) ''seed''
     = Some ''0123456789abcdef''"
proof -
  have e: "encrypted example_encrypted_account"
    and k: "private_key example_encrypted_account = None"
    by (simp_all add: example_encrypted_account_def)
  have f: "decrypt_fails toy_prims example_encrypted_account ''zz''"
    using example_decrypt_fails by simp
  have d: "decrypt toy_prims example_encrypted_account ''zz''
      = (fst (decrypt toy_prims example_encrypted_account ''zz''),
         snd (decrypt toy_prims example_encrypted_account ''zz''))"
    by simp
  from decrypt_failure_keeps_keys[OF e f d] e f k example_decrypt_fails
  show ?thesis by simp
qed

text \<open>
  C1 as the specification states it fails: the account was encrypted with \<^verbatim>\<open>pw12\<close> and
  loaded from its file, so it holds no vector. The wrong password \<^verbatim>\<open>zz\<close> passes the
  check of the padding and gives a seed that is no mnemonic; \<^verbatim>\<open>decrypt\<close> returns
  \<^verbatim>\<open>False\<close>, and the account now holds the vector of the seed.
\<close>

theorem decrypt_init_vectors_counterexample:
  "encrypted example_encrypted_account \<and>
   fst (decrypt toy_prims example_encrypted_account ''zz'') = Inr False \<and>
   init_vectors example_encrypted_account ''seed'' = None \<and>
   init_vectors (snd (decrypt toy_prims example_encrypted_account ''zz'')) ''seed''
     = Some ''0123456789abcdef''"
  by (simp add: example_decrypt_valid_padding)
     (simp add: example_encrypted_account_def example_account_def)

text \<open>
  With a password that fails the check of the padding the account stays as it is, and with
  the right password the account is decrypted.
\<close>

lemma example_decrypt_invalid_padding:
  "decrypt toy_prims example_encrypted_account ''abc'' = (Inr False, example_encrypted_account)"
  by (simp add: decrypt_def decrypt_seed_def example_encrypted_account_def example_account_def
      toy_prims_def toy_aes_encrypt_def toy_aes_decrypt_def toy_mark_def)

lemma example_decrypt_right_password:
  "decrypt toy_prims example_encrypted_account ''pw12'' =
   (Inr True,
    example_account\<lparr>init_vectors :=
      [''seed'' \<mapsto> ''0123456789abcdef'', ''private_key'' \<mapsto> ''fedcba9876543210'']\<rparr>)"
  by (simp add: decrypt_def decrypt_seed_def decrypt_private_key_string_def
      example_encrypted_account_def example_account_def example_private_key_def
      toy_prims_def toy_aes_encrypt_def toy_aes_decrypt_def toy_mark_def toy_mnemonic_decode_def
      toy_from_extended_key_string_def)

lemma decrypt_invalid_padding_unchanged:
  assumes "encrypted a" and "seed a \<noteq> []"
    and "aes_decrypt P password (seed a) = Inl InvalidPasswordError"
  shows "decrypt P a password = (Inr False, a)"
  using assms by (simp add: decrypt_def decrypt_seed_def)

text \<open>
  A seed that decrypts and a private key string that does not parse: \<^verbatim>\<open>decrypt\<close>
  returns \<^verbatim>\<open>False\<close> with both vectors stored.
\<close>

lemma example_decrypt_undecodable_key:
  "undecodable_key toy_prims
     (example_encrypted_account
        \<lparr>private_key_string := toy_aes_encrypt ''pw12'' ''no key'' ''fedcba9876543210''\<rparr>)
     ''pw12'' \<and>
   decrypt toy_prims
     (example_encrypted_account
        \<lparr>private_key_string := toy_aes_encrypt ''pw12'' ''no key'' ''fedcba9876543210''\<rparr>)
     ''pw12'' =
   (Inr False,
    example_encrypted_account
      \<lparr>private_key_string := toy_aes_encrypt ''pw12'' ''no key'' ''fedcba9876543210'',
       init_vectors :=
         [''seed'' \<mapsto> ''0123456789abcdef'', ''private_key'' \<mapsto> ''fedcba9876543210'']\<rparr>)"
  by (simp add: undecodable_key_def seed_validated_def decrypt_def decrypt_seed_def
      decrypt_private_key_string_def example_encrypted_account_def example_account_def
      toy_prims_def toy_aes_encrypt_def toy_aes_decrypt_def toy_mark_def toy_mnemonic_decode_def
      toy_from_extended_key_string_def)

text \<open>
  While an account is encrypted nothing reads its vectors: \<^verbatim>\<open>to_dict\<close> returns the same
  dictionary whatever they are, and \<^verbatim>\<open>encrypt\<close> refuses the account.
\<close>

lemma to_dict_encrypted_ignores_vectors:
  assumes "encrypted a"
  shows "to_dict P (a\<lparr>init_vectors := v\<rparr>) encrypt_password include_channel_keys r
         = (fst (to_dict P a encrypt_password include_channel_keys r),
            a\<lparr>init_vectors := v\<rparr>, r) \<and>
         fst (encrypt P (a\<lparr>init_vectors := v\<rparr>) password r) = Inl AssertionError"
  using assms by (simp add: to_dict_def encrypt_def split: option.splits)

subsection \<open>\<^verbatim>\<open>encrypt\<close> followed by \<^verbatim>\<open>decrypt\<close>\<close>

lemma get_init_vector_length:
  assumes "get_init_vector a key r = (iv, a', r')" and "vectors_ok a"
  shows "length iv = 16 \<and> vectors_ok a'"
  using assms
  by (auto simp: get_init_vector_def os_urandom_def vectors_ok_def
      split: option.splits if_splits)

text \<open>
  C2. For an account that is not encrypted and has a private key and a seed that the
  mnemonic decoder accepts, \<^verbatim>\<open>encrypt(pw)\<close> followed by \<^verbatim>\<open>decrypt(pw)\<close> returns
  \<^verbatim>\<open>True\<close> twice and gives back the seed and the private key; the account is encrypted in
  between and not encrypted at the end. The cipher and the extended key strings are
  parameters: decryption inverts encryption under the same password and a vector of 16
  bytes, cipher texts and the key string are not empty, and the key is read back from its
  string; the vectors the account already holds have 16 bytes.
\<close>

theorem encrypt_decrypt_identity:
  assumes "\<not> encrypted a"
    and "private_key a = Some k"
    and "mnemonic_decode P (seed a) = Inr m"
    and "vectors_ok a"
    and "cipher_round_trip P password"
    and "extended_key_string P k \<noteq> []"
    and "from_extended_key_string P (extended_key_string P k) = Inr k"
    and "encrypt P a password r = (res1, a1, r1)"
    and "decrypt P a1 password = (res2, a2)"
  shows "res1 = Inr True \<and> encrypted a1 \<and> private_key a1 = None \<and>
         res2 = Inr True \<and> seed a2 = seed a \<and> private_key a2 = private_key a \<and>
         \<not> encrypted a2"
proof -
  let ?E = "aes_encrypt P password"
  have rt: "aes_decrypt P password (?E v iv) = Inr (v, iv)" "?E v iv \<noteq> []"
    if "length iv = 16" for v iv
    using assms(5) that by (auto simp: cipher_round_trip_def)
  \<comment> \<open>the seed\<close>
  obtain b1 s1 where step1:
    "(if seed a \<noteq> []
      then (case get_init_vector a ''seed'' r of
              (iv, a', r') \<Rightarrow> (a'\<lparr>seed := ?E (seed a) iv\<rparr>, r'))
      else (a, r)) = (b1, s1)"
    by (metis prod.collapse)
  have b1: "\<not> encrypted b1 \<and> private_key b1 = Some k \<and> vectors_ok b1 \<and>
            private_key_string b1 = private_key_string a \<and>
            (if seed a = [] then seed b1 = []
             else \<exists>iv. length iv = 16 \<and> seed b1 = ?E (seed a) iv)"
  proof (cases "seed a = []")
    case True
    with step1 assms(1,2,4) show ?thesis by auto
  next
    case False
    obtain iv a' r' where g: "get_init_vector a ''seed'' r = (iv, a', r')"
      by (metis prod.collapse)
    from get_init_vector_length[OF g assms(4)] have l: "length iv = 16" "vectors_ok a'"
      by auto
    have a': "a' = a\<lparr>init_vectors := (init_vectors a)(''seed'' \<mapsto> iv)\<rparr>"
      by (rule get_init_vector_stored[OF g])
    from step1 False g have "b1 = a'\<lparr>seed := ?E (seed a) iv\<rparr>" by simp
    with a' l assms(1,2) False show ?thesis by (auto simp: vectors_ok_def)
  qed
  \<comment> \<open>the private key\<close>
  obtain iv2 b2 s2 where g2: "get_init_vector b1 ''private_key'' s1 = (iv2, b2, s2)"
    by (metis prod.collapse)
  from get_init_vector_length[OF g2] b1 have l2: "length iv2 = 16" by auto
  have b2: "b2 = b1\<lparr>init_vectors := (init_vectors b1)(''private_key'' \<mapsto> iv2)\<rparr>"
    by (rule get_init_vector_stored[OF g2])
  have enc: "encrypt P a password r =
      (Inr True,
       b2\<lparr>private_key_string := ?E (extended_key_string P k) iv2, private_key := None,
          encrypted := True\<rparr>, s2)"
    using assms(1) step1 b1 g2 by (simp add: encrypt_def)
  with assms(8) have a1: "res1 = Inr True"
    "a1 = b2\<lparr>private_key_string := ?E (extended_key_string P k) iv2, private_key := None,
          encrypted := True\<rparr>"
    by auto
  have seed_a1: "seed a1 = seed b1" and pks_a1: "private_key_string a1 = ?E (extended_key_string P k) iv2"
    and enc_a1: "encrypted a1" and pk_a1: "private_key a1 = None"
    by (simp_all add: a1 b2)
  \<comment> \<open>decryption of the seed\<close>
  obtain c1 where ds: "decrypt_seed P a1 password = (Inr (seed a), c1)"
  proof (cases "seed a = []")
    case True
    with b1 seed_a1 have "decrypt_seed P a1 password = (Inr (seed a), a1)"
      by (simp add: decrypt_seed_def)
    then show ?thesis by (rule that)
  next
    case False
    with b1 obtain iv where iv: "length iv = 16" "seed b1 = ?E (seed a) iv" by auto
    have "decrypt_seed P a1 password =
        (Inr (seed a), a1\<lparr>init_vectors := (init_vectors a1)(''seed'' \<mapsto> iv)\<rparr>)"
      using False iv rt[OF iv(1), of "seed a"] seed_a1 assms(3)
      by (simp add: decrypt_seed_def)
    then show ?thesis by (rule that)
  qed
  have c1: "private_key_string c1 = private_key_string a1"
    using decrypt_seed_frame[OF ds] by simp
  obtain c2 where dk: "decrypt_private_key_string P c1 password = (Inr (Some k), c2)"
  proof -
    have "decrypt_private_key_string P c1 password =
        (Inr (Some k), c1\<lparr>init_vectors := (init_vectors c1)(''private_key'' \<mapsto> iv2)\<rparr>)"
      using rt[OF l2, of "extended_key_string P k"] c1 pks_a1 assms(6,7)
      by (simp add: decrypt_private_key_string_def)
    then show ?thesis by (rule that)
  qed
  have dec: "decrypt P a1 password =
      (Inr True, c2\<lparr>seed := seed a, private_key := Some k, private_key_string := [],
                      encrypted := False\<rparr>)"
    using enc_a1 ds dk by (simp add: decrypt_def)
  with assms(9) have "res2 = Inr True" "seed a2 = seed a" "private_key a2 = Some k"
    "\<not> encrypted a2"
    by auto
  with a1(1) enc_a1 pk_a1 assms(2) show ?thesis by simp
qed


lemma toy_cipher_round_trip: "cipher_round_trip toy_prims password"
  by (simp add: cipher_round_trip_def toy_prims_def toy_aes_encrypt_def toy_aes_decrypt_def)

lemma example_encrypt:
  "encrypt toy_prims example_account ''pw12'' example_urandom =
   (Inr True,
    example_account
      \<lparr>seed := ''rrrrrrrrrrrrrrrr0pw12abandon ability'',
       private_key_string := ''rrrrrrrrrrrrrrrr0pw12xprvS'',
       init_vectors :=
         [''seed'' \<mapsto> ''rrrrrrrrrrrrrrrr'', ''private_key'' \<mapsto> ''rrrrrrrrrrrrrrrr''],
       encrypted := True, private_key := None\<rparr>,
    example_urandom)"
  by (simp add: encrypt_def get_init_vector_def os_urandom_def example_account_def
      example_private_key_def example_urandom_def toy_prims_def toy_aes_encrypt_def
      toy_mark_def upt_rec)

theorem encrypt_decrypt_identity_witness:
  "\<not> encrypted example_account \<and>
   private_key example_account = Some example_private_key \<and>
   mnemonic_decode toy_prims (seed example_account) = Inr 15 \<and>
   vectors_ok example_account \<and>
   cipher_round_trip toy_prims ''pw12'' \<and>
   fst (encrypt toy_prims example_account ''pw12'' example_urandom) = Inr True \<and>
   seed (fst (snd (encrypt toy_prims example_account ''pw12'' example_urandom)))
     = ''rrrrrrrrrrrrrrrr0pw12abandon ability'' \<and>
   fst (decrypt toy_prims
          (fst (snd (encrypt toy_prims example_account ''pw12'' example_urandom))) ''pw12'')
     = Inr True \<and>
   seed (snd (decrypt toy_prims
          (fst (snd (encrypt toy_prims example_account ''pw12'' example_urandom))) ''pw12''))
     = ''abandon ability'' \<and>
   private_key (snd (decrypt toy_prims
          (fst (snd (encrypt toy_prims example_account ''pw12'' example_urandom))) ''pw12''))
     = Some example_private_key"
proof -
  let ?a1 = "fst (snd (encrypt toy_prims example_account ''pw12'' example_urandom))"
  have h1: "\<not> encrypted example_account" by (simp add: example_account_def)
  have h2: "private_key example_account = Some example_private_key"
    by (simp add: example_account_def)
  have h3: "mnemonic_decode toy_prims (seed example_account) = Inr 15"
    by (simp add: example_account_def toy_prims_def toy_mnemonic_decode_def)
  have h4: "vectors_ok example_account" by (simp add: vectors_ok_def example_account_def)
  have h5: "cipher_round_trip toy_prims ''pw12''" by (rule toy_cipher_round_trip)
  have h6: "extended_key_string toy_prims example_private_key \<noteq> []"
    by (simp add: toy_prims_def)
  have h7: "from_extended_key_string toy_prims
              (extended_key_string toy_prims example_private_key) = Inr example_private_key"
    by (simp add: toy_prims_def toy_from_extended_key_string_def example_private_key_def)
  have h8: "encrypt toy_prims example_account ''pw12'' example_urandom
      = (fst (encrypt toy_prims example_account ''pw12'' example_urandom), ?a1,
         snd (snd (encrypt toy_prims example_account ''pw12'' example_urandom)))"
    by simp
  have h9: "decrypt toy_prims ?a1 ''pw12''
      = (fst (decrypt toy_prims ?a1 ''pw12''), snd (decrypt toy_prims ?a1 ''pw12''))"
    by simp
  from encrypt_decrypt_identity[OF h1 h2 h3 h4 h5 h6 h7 h8 h9] h1 h2 h3 h4 h5
  show ?thesis by (simp add: example_encrypt) (simp add: example_account_def)
qed

section \<open>Properties of the channel key manager\<close>

lemma cache_grows_refl: "cache_grows P m m"
  by (simp add: cache_grows_def)

lemma cache_grows_trans:
  assumes "cache_grows P m1 m2" and "cache_grows P m2 m3"
  shows "cache_grows P m1 m3"
  unfolding cache_grows_def
proof (intro conjI allI impI)
  show "last_known m1 \<le> last_known m3" using assms by (auto simp: cache_grows_def)
  show "channel_private_key m3 = channel_private_key m1" using assms by (auto simp: cache_grows_def)
next
  fix addr key
  assume "cache m1 addr = Some key"
  then show "cache m3 addr = Some key" using assms by (auto simp: cache_grows_def)
next
  fix addr key
  assume c3: "cache m3 addr = Some key"
  from assms(2) c3 consider (old) "cache m2 addr = Some key"
    | (new) k i where "channel_private_key m2 = Some k" "last_known m2 \<le> i"
        "key = priv_child P k i" "addr = address_of P (public_key_of P key)"
    unfolding cache_grows_def by blast
  then show "cache m1 addr = Some key \<or>
         (\<exists>k i. channel_private_key m1 = Some k \<and> last_known m1 \<le> i \<and>
                key = priv_child P k i \<and> addr = address_of P (public_key_of P key))"
  proof cases
    case old
    with assms(1) show ?thesis unfolding cache_grows_def by blast
  next
    case new
    have "channel_private_key m1 = Some k" "last_known m1 \<le> i"
      using new(1,2) assms(1) by (auto simp: cache_grows_def)
    with new(3,4) show ?thesis by blast
  qed
qed

text \<open>One derived key stored under its address, the step that both operations make.\<close>

lemma store_key_grows:
  assumes pk: "channel_private_key m = Some k"
    and d: "derived_cache P m"
    and cf: "collision_free P k"
    and key: "key = priv_child P k (last_known m)"
    and m': "m' = m\<lparr>cache := (cache m)(address_of P (public_key_of P key) \<mapsto> key)\<rparr>"
  shows "cache_grows P m m' \<and> derived_cache P m'"
proof -
  let ?addr = "address_of P (public_key_of P key)"
  have keep: "cache m' a = Some x" if "cache m a = Some x" for a x
  proof (cases "a = ?addr")
    case False
    with that m' show ?thesis by simp
  next
    case True
    from d that obtain k' i where "channel_private_key m = Some k'" "x = priv_child P k' i"
      "a = address_of P (public_key_of P x)"
      unfolding derived_cache_def by blast
    with pk True key have "address_of P (public_key_of P (priv_child P k i))
        = address_of P (public_key_of P (priv_child P k (last_known m)))" "x = priv_child P k i"
      by auto
    with cf have "x = key" unfolding collision_free_def key by metis
    with True m' show ?thesis by simp
  qed
  have new: "cache m a = Some x \<or>
      (\<exists>k i. channel_private_key m = Some k \<and> last_known m \<le> i \<and>
             x = priv_child P k i \<and> a = address_of P (public_key_of P x))"
    if "cache m' a = Some x" for a x
  proof (cases "a = ?addr")
    case False
    with that m' show ?thesis by simp
  next
    case True
    with that m' have "x = key" by simp
    with True pk key show ?thesis by auto
  qed
  have g: "cache_grows P m m'"
    unfolding cache_grows_def using keep new m' by auto
  have "derived_cache P m'"
    unfolding derived_cache_def
  proof (intro allI impI)
    fix a x assume "cache m' a = Some x"
    from new[OF this] d have "\<exists>k i. channel_private_key m = Some k \<and> x = priv_child P k i \<and>
        a = address_of P (public_key_of P x)"
      unfolding derived_cache_def by blast
    then show "\<exists>k i. channel_private_key m' = Some k \<and> x = priv_child P k i \<and>
        a = address_of P (public_key_of P x)"
      using m' by simp
  qed
  with g show ?thesis ..
qed

lemma bump_grows:
  assumes "derived_cache P m" and "m' = m\<lparr>last_known := last_known m + 1\<rparr>"
  shows "cache_grows P m m' \<and> derived_cache P m'"
  using assms by (auto simp: cache_grows_def derived_cache_def)

lemma maybe_generate_grows:
  assumes "derived_cache P m"
    and "\<forall>k. channel_private_key m = Some k \<longrightarrow> collision_free P k"
  shows "cache_grows P m (maybe_generate_deterministic_key_for_channel P m b) \<and>
         derived_cache P (maybe_generate_deterministic_key_for_channel P m b)"
proof (cases "channel_private_key m")
  case None
  with assms show ?thesis
    by (simp add: maybe_generate_deterministic_key_for_channel_def cache_grows_refl)
next
  case (Some k)
  let ?key = "priv_child P k (last_known m)"
  let ?m1 = "m\<lparr>cache := (cache m)(address_of P (public_key_of P ?key) \<mapsto> ?key)\<rparr>"
  show ?thesis
  proof (cases "b = pubkey_bytes (public_key_of P ?key)")
    case False
    with Some assms show ?thesis
      by (simp add: maybe_generate_deterministic_key_for_channel_def Let_def cache_grows_refl)
  next
    case True
    from assms Some have cf: "collision_free P k" by simp
    have s1: "cache_grows P m ?m1 \<and> derived_cache P ?m1"
      by (rule store_key_grows[OF Some assms(1) cf refl refl])
    have s2: "cache_grows P ?m1 (?m1\<lparr>last_known := last_known ?m1 + 1\<rparr>) \<and>
              derived_cache P (?m1\<lparr>last_known := last_known ?m1 + 1\<rparr>)"
      by (rule bump_grows) (use s1 in auto)
    have r: "maybe_generate_deterministic_key_for_channel P m b
        = ?m1\<lparr>last_known := last_known ?m1 + 1\<rparr>"
      using Some True
      by (simp add: maybe_generate_deterministic_key_for_channel_def Let_def)
    from s1 s2 show ?thesis unfolding r by (blast intro: cache_grows_trans)
  qed
qed

lemma generate_next_key_grows:
  assumes "generate_next_key P used m = Some (res, m')"
    and "derived_cache P m"
    and "\<forall>k. channel_private_key m = Some k \<longrightarrow> collision_free P k"
  shows "cache_grows P m m' \<and> derived_cache P m'"
proof -
  let ?Q = "\<lambda>pm y.
        derived_cache (fst (fst pm)) (snd pm) \<longrightarrow>
        (\<forall>k. channel_private_key (snd pm) = Some k \<longrightarrow> collision_free (fst (fst pm)) k) \<longrightarrow>
        cache_grows (fst (fst pm)) (snd pm) (snd y) \<and> derived_cache (fst (fst pm)) (snd y)"
  have "?Q ((P, used), m) (res, m')"
  proof (rule generate_next_key.raw_induct[where Pa = ?Q, OF _ assms(1)])
    fix gen P used m y
    assume IH: "\<And>P used m y. gen P used m = Some y \<Longrightarrow> ?Q ((P, used), m) y"
      and body: "(case channel_private_key m of None \<Rightarrow> Some (Inl AttributeError, m)
        | Some k \<Rightarrow>
          let next_private_key = priv_child P k (last_known m);
              public_key = public_key_of P next_private_key;
              m' = m\<lparr>cache := (cache m)(address_of P public_key \<mapsto> next_private_key)\<rparr>
          in if \<not> used public_key then Some (Inr next_private_key, m')
             else gen P used (m'\<lparr>last_known := last_known m' + 1\<rparr>)) = Some y"
    show "?Q ((P, used), m) y"
    proof (simp only: fst_conv snd_conv, intro impI)
      assume d: "derived_cache P m"
        and c: "\<forall>k. channel_private_key m = Some k \<longrightarrow> collision_free P k"
      show "cache_grows P m (snd y) \<and> derived_cache P (snd y)"
      proof (cases "channel_private_key m")
        case None
        with body have "snd y = m" by auto
        with d show ?thesis by (simp add: cache_grows_refl)
      next
        case (Some k)
        let ?key = "priv_child P k (last_known m)"
        let ?m1 = "m\<lparr>cache := (cache m)(address_of P (public_key_of P ?key) \<mapsto> ?key)\<rparr>"
        from c Some have cf: "collision_free P k" by simp
        have s1: "cache_grows P m ?m1 \<and> derived_cache P ?m1"
          by (rule store_key_grows[OF Some d cf refl refl])
        show ?thesis
        proof (cases "used (public_key_of P ?key)")
          case False
          with body Some have "snd y = ?m1" by (auto simp: Let_def)
          with s1 show ?thesis by simp
        next
          case True
          let ?m2 = "?m1\<lparr>last_known := last_known ?m1 + 1\<rparr>"
          have s2: "cache_grows P ?m1 ?m2 \<and> derived_cache P ?m2"
            by (rule bump_grows) (use s1 in auto)
          from body Some True have rec: "gen P used ?m2 = Some y" by (simp add: Let_def)
          have c2: "\<forall>k. channel_private_key ?m2 = Some k \<longrightarrow> collision_free P k"
            using c by simp
          from IH[OF rec] s2 c2 have "cache_grows P ?m2 (snd y) \<and> derived_cache P (snd y)"
            by simp
          with s1 s2 show ?thesis by (blast intro: cache_grows_trans)
        qed
      qed
    qed
  qed
  with assms show ?thesis by simp
qed


text \<open>
  C9. Every operation of the channel key manager leaves the entries of the cache in place,
  adds only entries that map the address of a derived key to that key, with an index that
  is at least \<^verbatim>\<open>last_known\<close>, and does not decrease \<^verbatim>\<open>last_known\<close>. The cache is one
  that holds derived keys under their addresses, as every cache built from the empty one
  does, and the addresses of the children of the channel key do not collide.
\<close>

theorem channel_key_cache_append_only:
  assumes "key_manager_op P m m'"
    and "derived_cache P m"
    and "\<forall>k. channel_private_key m = Some k \<longrightarrow> collision_free P k"
  shows "last_known m \<le> last_known m' \<and>
         (\<forall>addr key. cache m addr = Some key \<longrightarrow> cache m' addr = Some key) \<and>
         (\<forall>addr key. cache m' addr = Some key \<longrightarrow>
            cache m addr = Some key \<or>
            (\<exists>k i. channel_private_key m = Some k \<and> last_known m \<le> i \<and>
                   key = priv_child P k i \<and> addr = address_of P (public_key_of P key))) \<and>
         channel_private_key m' = channel_private_key m \<and>
         derived_cache P m'"
proof -
  have "cache_grows P m m' \<and> derived_cache P m'"
    using assms(1)
  proof cases
    case (maybe_generate b)
    then show ?thesis using maybe_generate_grows[OF assms(2,3)] by simp
  next
    case (next_key used res)
    then show ?thesis using generate_next_key_grows[OF _ assms(2,3)] by simp
  qed
  then show ?thesis unfolding cache_grows_def by blast
qed

lemma new_channel_key_manager_derived:
  "derived_cache P (new_channel_key_manager P account_private_key) \<and>
   last_known (new_channel_key_manager P account_private_key) = 0"
  by (simp add: derived_cache_def new_channel_key_manager_def)

text \<open>
  \<^verbatim>\<open>generate_next_key\<close> returns when some index from \<^verbatim>\<open>last_known\<close> on has a key that
  the database does not know, and raises at once without a private key.
\<close>

lemma generate_next_key_returns:
  assumes "channel_private_key m = Some k"
    and "\<not> used (public_key_of P (priv_child P k (last_known m + int n)))"
  shows "\<exists>key m'. generate_next_key P used m = Some (Inr key, m')"
  using assms
proof (induction n arbitrary: m)
  case 0
  then show ?case by (subst generate_next_key.simps) (simp add: Let_def)
next
  case (Suc n)
  let ?key = "priv_child P k (last_known m)"
  let ?m1 = "m\<lparr>cache := (cache m)(address_of P (public_key_of P ?key) \<mapsto> ?key)\<rparr>"
  let ?m2 = "?m1\<lparr>last_known := last_known ?m1 + 1\<rparr>"
  show ?case
  proof (cases "used (public_key_of P ?key)")
    case False
    with Suc.prems(1) show ?thesis by (subst generate_next_key.simps) (simp add: Let_def)
  next
    case True
    have "channel_private_key ?m2 = Some k" using Suc.prems(1) by simp
    moreover have "\<not> used (public_key_of P (priv_child P k (last_known ?m2 + int n)))"
      using Suc.prems(2) by (simp add: add.commute add.left_commute)
    ultimately obtain key m' where "generate_next_key P used ?m2 = Some (Inr key, m')"
      using Suc.IH by blast
    moreover have "generate_next_key P used m = generate_next_key P used ?m2"
      using Suc.prems(1) True by (subst generate_next_key.simps) (simp add: Let_def)
    ultimately show ?thesis by simp
  qed
qed

lemma generate_next_key_without_private_key:
  "channel_private_key m = None \<Longrightarrow> generate_next_key P used m = Some (Inl AttributeError, m)"
  by (subst generate_next_key.simps) simp

lemma toy_collision_free: "collision_free toy_prims k"
  by (auto simp: collision_free_def toy_prims_def toy_index_def split: if_splits)

lemma example_generate_next_key:
  "generate_next_key toy_prims (\<lambda>k. pub_n k < 2) example_channel_keys =
   Some (Inr \<lparr>secret = ''S'', priv_chain_code = [], priv_n = 2, priv_depth = 2\<rparr>,
         \<lparr>last_known = 2,
          cache = [''S+'' \<mapsto> \<lparr>secret = ''S'', priv_chain_code = [], priv_n = 0, priv_depth = 2\<rparr>,
                   ''S+I'' \<mapsto> \<lparr>secret = ''S'', priv_chain_code = [], priv_n = 1, priv_depth = 2\<rparr>,
                   ''S+II'' \<mapsto> \<lparr>secret = ''S'', priv_chain_code = [], priv_n = 2, priv_depth = 2\<rparr>],
          channel_private_key =
            Some \<lparr>secret = ''S'', priv_chain_code = [], priv_n = 2, priv_depth = 1\<rparr>\<rparr>)"
  apply (subst generate_next_key.simps)
  apply (simp add: example_channel_keys_def new_channel_key_manager_def example_private_key_def
      toy_prims_def toy_index_def KeyPath_CHANNEL_def Let_def)
  apply (subst generate_next_key.simps)
  apply (simp add: toy_prims_def toy_index_def Let_def)
  apply (subst generate_next_key.simps)
  apply (simp add: toy_prims_def toy_index_def Let_def eval_nat_numeral)
  done

theorem channel_key_cache_append_only_witness:
  "derived_cache toy_prims example_channel_keys \<and>
   last_known example_channel_keys = 0 \<and>
   cache example_channel_keys ''S+II'' = None \<and>
   generate_next_key toy_prims (\<lambda>k. pub_n k < 2) example_channel_keys \<noteq> None \<and>
   0 \<le> last_known (snd (the (generate_next_key toy_prims (\<lambda>k. pub_n k < 2) example_channel_keys))) \<and>
   derived_cache toy_prims
     (snd (the (generate_next_key toy_prims (\<lambda>k. pub_n k < 2) example_channel_keys)))"
proof -
  let ?r = "generate_next_key toy_prims (\<lambda>k. pub_n k < 2) example_channel_keys"
  have d: "derived_cache toy_prims example_channel_keys"
    and l: "last_known example_channel_keys = 0"
    using new_channel_key_manager_derived[of toy_prims "Some example_private_key"]
    by (simp_all add: example_channel_keys_def)
  have c: "\<forall>k. channel_private_key example_channel_keys = Some k \<longrightarrow> collision_free toy_prims k"
    by (simp add: toy_collision_free)
  have e: "cache example_channel_keys ''S+II'' = None"
    by (simp add: example_channel_keys_def new_channel_key_manager_def)
  have s: "?r = Some (fst (the ?r), snd (the ?r))"
    by (simp add: example_generate_next_key)
  have op: "key_manager_op toy_prims example_channel_keys (snd (the ?r))"
    by (rule key_manager_op.next_key[OF s])
  have n: "?r \<noteq> None" by (simp add: example_generate_next_key)
  from channel_key_cache_append_only[OF op d c] d l e n show ?thesis by simp
qed

end
